theory Spec2Isabelle
  imports Complex_Main "HOL-Library.Monad_Syntax"
begin

section \<open>Voxel-grid ray traversal (src/common/math.cc)\<close>

text \<open>
  The three traversal routines of \<^verbatim>\<open>static_map::common\<close> take two points with
  \<^verbatim>\<open>float\<close> coordinates and a \<^verbatim>\<open>float\<close> voxel edge length and return the voxel indices
  (vectors of three \<^verbatim>\<open>int\<close>) between them. The embedding keeps both machine types:
  \<^item> a \<^verbatim>\<open>float\<close> is an IEEE binary32 value: not-a-number, an infinity, or a finite
    rational; every arithmetic result is rounded to the nearest binary32 value, ties to
    even. The sign of zero is not kept: it only shows in a division by zero, and the
    code divides by a ray component only on an axis whose start and end voxels differ.
    A rational that is not a binary32 number stands for no input of the code; the
    theorems hold for those values too, and every concrete input below is a binary32
    number.
  \<^item> an \<^verbatim>\<open>int\<close> is a 32-bit two's complement integer. Signed overflow and a conversion
    from \<^verbatim>\<open>float\<close> to \<^verbatim>\<open>int\<close> that does not fit are undefined behaviour in C++: every
    such operation is checked, and a failed check ends the run with
    \<open>UndefinedBehaviour\<close>. \<^verbatim>\<open>long\<close> is 64 bits wide (LP64).

  A run ends with \<open>Inr path\<close> when the function returns, with \<open>Inl CheckFailed\<close> when a
  \<^verbatim>\<open>CHECK_EQ\<close> aborts it, and with \<open>Inl UndefinedBehaviour\<close>. The loop of \<^verbatim>\<open>VoxelCasting\<close>
  may run forever: the function takes the number of passes it may make and answers
  \<open>None\<close> when they do not suffice. Memory is not modelled: \<^verbatim>\<open>reserve\<close> and
  \<^verbatim>\<open>push_back\<close> never fail.
\<close>

subsection \<open>binary32 values and rounding\<close>

datatype float = NaN | PInf | NInf | Fin rat

function ilog2 :: "int \<Rightarrow> int" where
  "ilog2 n = (if n \<le> 1 then 0 else 1 + ilog2 (n div 2))"
  by pat_completeness auto
termination
  by (relation "measure nat") auto

declare ilog2.simps [simp del]

definition pow2 :: "int \<Rightarrow> rat" where
  "pow2 k = (if 0 \<le> k then 2 ^ nat k else 1 / 2 ^ nat (- k))"

text \<open>The exponent \<open>e\<close> of a positive rational: \<open>2 ^ e \<le> q < 2 ^ (e + 1)\<close>.\<close>

definition binade :: "rat \<Rightarrow> int" where
  "binade q = (if 1 \<le> q then ilog2 \<lfloor>q\<rfloor> else - (1 + ilog2 (\<lceil>1 / q\<rceil> - 1)))"

definition round_even :: "rat \<Rightarrow> int" where
  "round_even m =
     (let f = \<lfloor>m\<rfloor>; d = m - of_int f
      in if d < 1 / 2 then f else if 1 / 2 < d then f + 1 else if even f then f else f + 1)"

definition FLT_MAX :: rat where
  "FLT_MAX = (2 ^ 24 - 1) * 2 ^ 104"

text \<open>
  Rounding to binary32: 24 significant bits, exponents from -126 (below that the
  subnormal spacing \<open>2 ^ -149\<close>) to 127, and an infinity when the rounded magnitude
  exceeds \<open>FLT_MAX\<close>.
\<close>

definition round32 :: "rat \<Rightarrow> float" where
  "round32 q =
     (if q = 0 then Fin 0
      else let ulp = pow2 (max (binade \<bar>q\<bar>) (- 126) - 23);
               r = of_int (round_even (\<bar>q\<bar> / ulp)) * ulp
           in if FLT_MAX < r then (if 0 < q then PInf else NInf)
              else Fin (if 0 < q then r else - r))"

subsection \<open>Arithmetic and comparisons on \<^verbatim>\<open>float\<close>\<close>

definition isnan :: "float \<Rightarrow> bool" where
  "isnan x = (x = NaN)"

fun fneg :: "float \<Rightarrow> float" where
  "fneg NaN = NaN"
| "fneg PInf = NInf"
| "fneg NInf = PInf"
| "fneg (Fin a) = Fin (- a)"

fun fadd :: "float \<Rightarrow> float \<Rightarrow> float" where
  "fadd NaN y = NaN"
| "fadd x NaN = NaN"
| "fadd PInf NInf = NaN"
| "fadd NInf PInf = NaN"
| "fadd PInf y = PInf"
| "fadd NInf y = NInf"
| "fadd x PInf = PInf"
| "fadd x NInf = NInf"
| "fadd (Fin a) (Fin b) = round32 (a + b)"

definition fsub :: "float \<Rightarrow> float \<Rightarrow> float" where
  "fsub x y = fadd x (fneg y)"

text \<open>The sign of a non-NaN value: 1, 0 or -1.\<close>

fun fsgn :: "float \<Rightarrow> int" where
  "fsgn NaN = 0"
| "fsgn PInf = 1"
| "fsgn NInf = - 1"
| "fsgn (Fin a) = (if 0 < a then 1 else if a < 0 then - 1 else 0)"

definition inf_of_sign :: "int \<Rightarrow> float" where
  "inf_of_sign s = (if s = 0 then NaN else if 0 < s then PInf else NInf)"

fun fmul :: "float \<Rightarrow> float \<Rightarrow> float" where
  "fmul NaN y = NaN"
| "fmul x NaN = NaN"
| "fmul (Fin a) (Fin b) = round32 (a * b)"
| "fmul x y = inf_of_sign (fsgn x * fsgn y)"

fun fdiv :: "float \<Rightarrow> float \<Rightarrow> float" where
  "fdiv NaN y = NaN"
| "fdiv x NaN = NaN"
| "fdiv (Fin a) (Fin b) = (if b = 0 then inf_of_sign (fsgn (Fin a)) else round32 (a / b))"
| "fdiv (Fin a) y = Fin 0"
| "fdiv x (Fin b) = (if b < 0 then fneg x else x)"
| "fdiv x y = NaN"

text \<open>\<open>flt x y\<close> is \<^verbatim>\<open>x < y\<close>, \<open>fge x y\<close> is \<^verbatim>\<open>x >= y\<close>: false when an operand is NaN.\<close>

fun flt :: "float \<Rightarrow> float \<Rightarrow> bool" where
  "flt NaN y = False"
| "flt x NaN = False"
| "flt PInf y = False"
| "flt x NInf = False"
| "flt NInf y = True"
| "flt x PInf = True"
| "flt (Fin a) (Fin b) = (a < b)"

definition fge :: "float \<Rightarrow> float \<Rightarrow> bool" where
  "fge x y = (flt y x \<or> (\<not> isnan x \<and> x = y))"

text \<open>\<^verbatim>\<open>std::floor\<close> on a \<^verbatim>\<open>float\<close>: exact, and the identity on NaN and the infinities.\<close>

fun floorf :: "float \<Rightarrow> float" where
  "floorf (Fin a) = Fin (of_int \<lfloor>a\<rfloor>)"
| "floorf x = x"

subsection \<open>\<^verbatim>\<open>int\<close> and the conversions\<close>

definition INT_MIN :: int where
  "INT_MIN = - 2147483648"

definition INT_MAX :: int where
  "INT_MAX = 2147483647"

definition int_ok :: "int \<Rightarrow> bool" where
  "int_ok n = (INT_MIN \<le> n \<and> n \<le> INT_MAX)"

text \<open>The result of a signed \<^verbatim>\<open>int\<close> operation: \<open>None\<close> is overflow, undefined in C++.\<close>

definition checked :: "int \<Rightarrow> int option" where
  "checked n = (if int_ok n then Some n else None)"

text \<open>\<^verbatim>\<open>std::abs\<close> on an \<^verbatim>\<open>int\<close>: undefined for \<open>INT_MIN\<close>.\<close>

definition abs_int :: "int \<Rightarrow> int option" where
  "abs_int n = checked \<bar>n\<bar>"

text \<open>The conversion of an \<^verbatim>\<open>int\<close> to \<^verbatim>\<open>float\<close> rounds; to \<^verbatim>\<open>double\<close> it is exact.\<close>

definition float_of_int :: "int \<Rightarrow> float" where
  "float_of_int n = round32 (of_int n)"

definition double_of_int :: "int \<Rightarrow> float" where
  "double_of_int n = Fin (of_int n)"

text \<open>
  The implicit conversion of a \<^verbatim>\<open>float\<close> to \<^verbatim>\<open>int\<close> (the arguments of the
  \<^verbatim>\<open>Eigen::Vector3i\<close> constructor in \<^verbatim>\<open>VoxelCasting\<close>) truncates towards zero and is
  undefined when the truncated value does not fit, or for NaN and the infinities.
\<close>

fun int_of_float :: "float \<Rightarrow> int option" where
  "int_of_float (Fin a) = checked (if 0 \<le> a then \<lfloor>a\<rfloor> else \<lceil>a\<rceil>)"
| "int_of_float x = None"

text \<open>
  \<^verbatim>\<open>std::lround\<close> rounds to the nearest \<^verbatim>\<open>long\<close>, halfway cases away from zero. For NaN,
  an infinity or a value outside \<^verbatim>\<open>long\<close> the C library returns an unspecified value:
  the platform's choice is the parameter \<open>u\<close>. The conversion of the \<^verbatim>\<open>long\<close> to
  \<^verbatim>\<open>int\<close> keeps the low 32 bits.
\<close>

definition round_away :: "rat \<Rightarrow> int" where
  "round_away a = (if 0 \<le> a then \<lfloor>a + 1 / 2\<rfloor> else - \<lfloor>- a + 1 / 2\<rfloor>)"

definition long_ok :: "int \<Rightarrow> bool" where
  "long_ok n = (- 9223372036854775808 \<le> n \<and> n \<le> 9223372036854775807)"

fun lround :: "(float \<Rightarrow> int) \<Rightarrow> float \<Rightarrow> int" where
  "lround u (Fin a) = (if long_ok (round_away a) then round_away a else u (Fin a))"
| "lround u x = u x"

definition int_of_long :: "int \<Rightarrow> int" where
  "int_of_long n = (n + 2147483648) mod 4294967296 - 2147483648"

text \<open>
  \<^verbatim>\<open>std::lround\<close> as glibc on x86-64 answers where the result is unspecified: the most
  negative \<^verbatim>\<open>long\<close>.
\<close>

definition lround_x86_64 :: "float \<Rightarrow> int" where
  "lround_x86_64 x = - 9223372036854775808"

text \<open>
  \<^verbatim>\<open>error[0] << 1\<close> on an \<^verbatim>\<open>int\<close>: the doubled value, reduced to 32 bits (the shift of
  C++20 and of every two's complement target).
\<close>

definition shl1 :: "int \<Rightarrow> int" where
  "shl1 n = int_of_long (2 * n)"

type_synonym Vector3f = "float \<times> float \<times> float"
type_synonym Vector3i = "int \<times> int \<times> int"

datatype error = UndefinedBehaviour | CheckFailed

subsection \<open>\<^verbatim>\<open>VoxelCasting\<close>\<close>

text \<open>
  The start and end voxel: \<^verbatim>\<open>std::floor(ray[i] / step_size)\<close> per axis, converted to
  \<^verbatim>\<open>int\<close> by the vector's constructor.
\<close>

definition voxel_of_floats :: "Vector3f \<Rightarrow> float \<Rightarrow> Vector3i option" where
  "voxel_of_floats = (\<lambda>(px, py, pz) step_size. do {
     x \<leftarrow> int_of_float (floorf (fdiv px step_size));
     y \<leftarrow> int_of_float (floorf (fdiv py step_size));
     z \<leftarrow> int_of_float (floorf (fdiv pz step_size));
     Some (x, y, z) })"

definition step_of :: "float \<Rightarrow> int" where
  "step_of r = (if fge r (Fin 0) then 1 else - 1)"

text \<open>
  \<open>tMax_of\<close> is \<^verbatim>\<open>tMaxX\<close> of one axis: the boundary
  \<^verbatim>\<open>(current_voxel[i] + step) * step_size\<close> is computed on every axis, the quotient only
  where the start and end voxels differ. \<open>tDelta_of\<close> is \<^verbatim>\<open>tDeltaX\<close>.
\<close>

definition tMax_of :: "int \<Rightarrow> int \<Rightarrow> int \<Rightarrow> float \<Rightarrow> float \<Rightarrow> float \<Rightarrow> float option" where
  "tMax_of start_voxel end_voxel step ray_start ray step_size = do {
     b \<leftarrow> checked (start_voxel + step);
     let next_voxel_boundary = fmul (float_of_int b) step_size;
     Some (if start_voxel \<noteq> end_voxel then fdiv (fsub next_voxel_boundary ray_start) ray
           else Fin FLT_MAX) }"

definition tDelta_of :: "int \<Rightarrow> int \<Rightarrow> int \<Rightarrow> float \<Rightarrow> float \<Rightarrow> float" where
  "tDelta_of start_voxel end_voxel step ray step_size =
     (if start_voxel \<noteq> end_voxel then fmul (fdiv step_size ray) (float_of_int step)
      else Fin FLT_MAX)"

text \<open>The pre-loop correction of one axis: \<^verbatim>\<open>diff[i]--\<close> on a negative ray component.\<close>

definition diff_of :: "int \<Rightarrow> int \<Rightarrow> float \<Rightarrow> int" where
  "diff_of current_voxel end_voxel ray =
     (if current_voxel \<noteq> end_voxel \<and> flt ray (Fin 0) then - 1 else 0)"

text \<open>One pass of the main loop's body: the axis with the smallest \<open>tMax\<close> steps.\<close>

definition cast_step :: "Vector3i \<Rightarrow> Vector3f \<Rightarrow> Vector3i \<times> Vector3f \<Rightarrow> (Vector3i \<times> Vector3f) option" where
  "cast_step = (\<lambda>(step_x, step_y, step_z) (tDeltaX, tDeltaY, tDeltaZ) ((cx, cy, cz), (tMaxX, tMaxY, tMaxZ)).
     if flt tMaxX tMaxY then
       (if flt tMaxX tMaxZ then do {
          cx \<leftarrow> checked (cx + step_x);
          Some ((cx, cy, cz), (fadd tMaxX tDeltaX, tMaxY, tMaxZ)) }
        else do {
          cz \<leftarrow> checked (cz + step_z);
          Some ((cx, cy, cz), (tMaxX, tMaxY, fadd tMaxZ tDeltaZ)) })
     else
       (if flt tMaxY tMaxZ then do {
          cy \<leftarrow> checked (cy + step_y);
          Some ((cx, cy, cz), (tMaxX, fadd tMaxY tDeltaY, tMaxZ)) }
        else do {
          cz \<leftarrow> checked (cz + step_z);
          Some ((cx, cy, cz), (tMaxX, tMaxY, fadd tMaxZ tDeltaZ)) }))"

text \<open>
  The main loop \<^verbatim>\<open>while (end_voxel != current_voxel)\<close>, with fuel: \<open>None\<close> when the loop
  is still running after \<open>fuel\<close> passes.
\<close>

fun cast_loop :: "nat \<Rightarrow> Vector3i \<Rightarrow> Vector3i \<Rightarrow> Vector3f \<Rightarrow> Vector3i \<Rightarrow> Vector3f \<Rightarrow> Vector3i list
    \<Rightarrow> (error + Vector3i list) option" where
  "cast_loop fuel end_voxel step tDelta current_voxel tMax visited_voxels =
     (if end_voxel = current_voxel then Some (Inr visited_voxels)
      else case fuel of
        0 \<Rightarrow> None
      | Suc k \<Rightarrow>
          (case cast_step step tDelta (current_voxel, tMax) of
             None \<Rightarrow> Some (Inl UndefinedBehaviour)
           | Some (current_voxel', tMax') \<Rightarrow>
               cast_loop k end_voxel step tDelta current_voxel' tMax'
                 (visited_voxels @ [current_voxel'])))"

declare cast_loop.simps [simp del]

text \<open>
  Everything between the early return and the main loop, given the start voxel
  \<open>(vx, vy, vz)\<close> and the end voxel \<open>(wx, wy, wz)\<close>: the loop's constants (the steps and
  \<open>tDelta\<close>) and its first state (the current voxel after the pre-loop correction,
  \<open>tMax\<close> and the voxels visited so far). \<open>None\<close> is undefined behaviour.
\<close>

definition cast_init :: "Vector3f \<Rightarrow> Vector3f \<Rightarrow> float \<Rightarrow> Vector3i \<Rightarrow> Vector3i
    \<Rightarrow> (Vector3i \<times> Vector3f \<times> Vector3i \<times> Vector3f \<times> Vector3i list) option" where
  "cast_init = (\<lambda>(start_x, start_y, start_z) (end_x, end_y, end_z) step_size
       (vx, vy, vz) (wx, wy, wz).
     let ray_x = fsub end_x start_x; ray_y = fsub end_y start_y; ray_z = fsub end_z start_z;
         step_x = step_of ray_x; step_y = step_of ray_y; step_z = step_of ray_z
     in do {
       tMaxX \<leftarrow> tMax_of vx wx step_x start_x ray_x step_size;
       tMaxY \<leftarrow> tMax_of vy wy step_y start_y ray_y step_size;
       tMaxZ \<leftarrow> tMax_of vz wz step_z start_z ray_z step_size;
       let tDeltaX = tDelta_of vx wx step_x ray_x step_size;
       let tDeltaY = tDelta_of vy wy step_y ray_y step_size;
       let tDeltaZ = tDelta_of vz wz step_z ray_z step_size;
       let diff_x = diff_of vx wx ray_x;
       let diff_y = diff_of vy wy ray_y;
       let diff_z = diff_of vz wz ray_z;
       let neg_ray = (diff_x < 0 \<or> diff_y < 0 \<or> diff_z < 0);
       let visited_voxels = [(vx, vy, vz)];
       if neg_ray then do {
         cx \<leftarrow> checked (vx + diff_x);
         cy \<leftarrow> checked (vy + diff_y);
         cz \<leftarrow> checked (vz + diff_z);
         Some ((step_x, step_y, step_z), (tDeltaX, tDeltaY, tDeltaZ), (cx, cy, cz),
               (tMaxX, tMaxY, tMaxZ), visited_voxels @ [(cx, cy, cz)]) }
       else
         Some ((step_x, step_y, step_z), (tDeltaX, tDeltaY, tDeltaZ), (vx, vy, vz),
               (tMaxX, tMaxY, tMaxZ), visited_voxels) })"

definition VoxelCasting :: "nat \<Rightarrow> Vector3f \<Rightarrow> Vector3f \<Rightarrow> float \<Rightarrow> (error + Vector3i list) option" where
  "VoxelCasting fuel ray_start ray_end step_size =
     (case voxel_of_floats ray_start step_size of
        None \<Rightarrow> Some (Inl UndefinedBehaviour)
      | Some start_voxel \<Rightarrow>
     (case voxel_of_floats ray_end step_size of
        None \<Rightarrow> Some (Inl UndefinedBehaviour)
      | Some end_voxel \<Rightarrow>
          if start_voxel = end_voxel then Some (Inr [start_voxel])
          else
            (case cast_init ray_start ray_end step_size start_voxel end_voxel of
               None \<Rightarrow> Some (Inl UndefinedBehaviour)
             | Some (step, tDelta, current_voxel, tMax, visited_voxels) \<Rightarrow>
                 cast_loop fuel end_voxel step tDelta current_voxel tMax visited_voxels)))"

subsection \<open>\<^verbatim>\<open>VoxelCastingBresenham\<close>\<close>

text \<open>
  \<^verbatim>\<open>int x0 = std::lround(std::floor(ray_start[0] / step_size))\<close>: the index of one axis
  in the two integer traversals.
\<close>

definition voxel_lround :: "(float \<Rightarrow> int) \<Rightarrow> float \<Rightarrow> float \<Rightarrow> int" where
  "voxel_lround u p step_size = int_of_long (lround u (floorf (fdiv p step_size)))"

text \<open>
  \<^verbatim>\<open>std::isnan\<close> applied to an \<^verbatim>\<open>int\<close> converts it to \<^verbatim>\<open>double\<close> first: this is the guard
  of both integer traversals.
\<close>

definition isnan_int :: "int \<Rightarrow> bool" where
  "isnan_int n = isnan (double_of_int n)"

text \<open>
  One axis of the loop body: \<^verbatim>\<open>x1 -= dx; if (x1 < 0) { x1 += dm; x0 += sx; }\<close>.
\<close>

definition bres_axis :: "int \<Rightarrow> int \<Rightarrow> int \<Rightarrow> int \<times> int \<Rightarrow> (int \<times> int) option" where
  "bres_axis dm dx sx = (\<lambda>(x1, x0). do {
     x1 \<leftarrow> checked (x1 - dx);
     if x1 < 0 then do {
       x1 \<leftarrow> checked (x1 + dm);
       x0 \<leftarrow> checked (x0 + sx);
       Some (x1, x0) }
     else Some (x1, x0) })"

text \<open>The three axis updates of one pass, in the order x, y, z.\<close>

definition bres_body :: "Vector3i \<Rightarrow> Vector3i \<Rightarrow> int \<Rightarrow> Vector3i \<times> Vector3i \<Rightarrow> (Vector3i \<times> Vector3i) option" where
  "bres_body = (\<lambda>(dx, dy, dz) (sx, sy, sz) dm ((x0, y0, z0), (x1, y1, z1)). do {
     (x1, x0) \<leftarrow> bres_axis dm dx sx (x1, x0);
     (y1, y0) \<leftarrow> bres_axis dm dy sy (y1, y0);
     (z1, z0) \<leftarrow> bres_axis dm dz sz (z1, z0);
     Some ((x0, y0, z0), (x1, y1, z1)) })"

text \<open>
  The loop \<^verbatim>\<open>for (;;)\<close> with its counter \<open>i\<close>: it emits \<open>(x0, y0, z0)\<close>, leaves when
  the counter is 0, and otherwise updates the three axes. The result is the last
  \<open>(x0, y0, z0)\<close> and the path.
\<close>

fun bres_loop :: "nat \<Rightarrow> Vector3i \<Rightarrow> Vector3i \<Rightarrow> int \<Rightarrow> Vector3i \<Rightarrow> Vector3i \<Rightarrow> Vector3i list
    \<Rightarrow> (Vector3i \<times> Vector3i list) option" where
  "bres_loop 0 d s dm xyz0 xyz1 visited_voxels = Some (xyz0, visited_voxels @ [xyz0])"
| "bres_loop (Suc i) d s dm xyz0 xyz1 visited_voxels =
     (case bres_body d s dm (xyz0, xyz1) of
        None \<Rightarrow> None
      | Some (xyz0', xyz1') \<Rightarrow> bres_loop i d s dm xyz0' xyz1' (visited_voxels @ [xyz0]))"

definition bres_run :: "Vector3i \<Rightarrow> Vector3i \<Rightarrow> (Vector3i \<times> Vector3i list) option" where
  "bres_run = (\<lambda>(x0, y0, z0) (x1, y1, z1). do {
     ex \<leftarrow> checked (x1 - x0);
     dx \<leftarrow> abs_int ex;
     ey \<leftarrow> checked (y1 - y0);
     dy \<leftarrow> abs_int ey;
     ez \<leftarrow> checked (z1 - z0);
     dz \<leftarrow> abs_int ez;
     let sx = (if x0 < x1 then 1 else - 1);
     let sy = (if y0 < y1 then 1 else - 1);
     let sz = (if z0 < z1 then 1 else - 1);
     let dm = max dx (max dy dz);
     reserve \<leftarrow> checked (dm + 1);
     bres_loop (nat dm) (dx, dy, dz) (sx, sy, sz) dm (x0, y0, z0)
       (dm div 2, dm div 2, dm div 2) [] })"

definition VoxelCastingBresenham :: "(float \<Rightarrow> int) \<Rightarrow> Vector3f \<Rightarrow> Vector3f \<Rightarrow> float
    \<Rightarrow> error + Vector3i list" where
  "VoxelCastingBresenham u = (\<lambda>(start_x, start_y, start_z) (end_x, end_y, end_z) step_size.
     let x0 = voxel_lround u start_x step_size;
         y0 = voxel_lround u start_y step_size;
         z0 = voxel_lround u start_z step_size
     in if isnan_int x0 \<or> isnan_int y0 \<or> isnan_int z0 then Inr []
        else
          let x1 = voxel_lround u end_x step_size;
              y1 = voxel_lround u end_y step_size;
              z1 = voxel_lround u end_z step_size
          in if isnan_int x1 \<or> isnan_int y1 \<or> isnan_int z1 then Inr []
             else
               (case bres_run (x0, y0, z0) (x1, y1, z1) of
                  None \<Rightarrow> Inl UndefinedBehaviour
                | Some (last_voxel, visited_voxels) \<Rightarrow>
                    if last_voxel = (x1, y1, z1) then Inr visited_voxels
                    else Inl CheckFailed))"

subsection \<open>\<^verbatim>\<open>VoxelCastingDDA\<close>\<close>

text \<open>
  One axis of the loop body after the three error updates:
  \<^verbatim>\<open>if ((error[0] << 1) >= max_delta) { current_voxel[0] += step[0]; error[0] -= max_delta; }\<close>.
\<close>

definition dda_axis :: "int \<Rightarrow> int \<Rightarrow> int \<times> int \<Rightarrow> (int \<times> int) option" where
  "dda_axis max_delta step = (\<lambda>(error, current).
     if max_delta \<le> shl1 error then do {
       current \<leftarrow> checked (current + step);
       error \<leftarrow> checked (error - max_delta);
       Some (error, current) }
     else Some (error, current))"

text \<open>
  One pass after the emission: the three error updates, then the three axis tests in
  the order x, y, z.
\<close>

definition dda_body :: "Vector3i \<Rightarrow> Vector3i \<Rightarrow> int \<Rightarrow> Vector3i \<times> Vector3i \<Rightarrow> (Vector3i \<times> Vector3i) option" where
  "dda_body = (\<lambda>(dx, dy, dz) (sx, sy, sz) max_delta ((cx, cy, cz), (e0, e1, e2)). do {
     e0 \<leftarrow> checked (e0 + dx);
     e1 \<leftarrow> checked (e1 + dy);
     e2 \<leftarrow> checked (e2 + dz);
     (e0, cx) \<leftarrow> dda_axis max_delta sx (e0, cx);
     (e1, cy) \<leftarrow> dda_axis max_delta sy (e1, cy);
     (e2, cz) \<leftarrow> dda_axis max_delta sz (e2, cz);
     Some ((cx, cy, cz), (e0, e1, e2)) })"

text \<open>
  The loop \<^verbatim>\<open>for (int i = 0; i < max_delta; ++i)\<close>, by the number of passes left. The
  result is the last \<open>current_voxel\<close> and the path so far.
\<close>

fun dda_loop :: "nat \<Rightarrow> Vector3i \<Rightarrow> Vector3i \<Rightarrow> int \<Rightarrow> Vector3i \<Rightarrow> Vector3i \<Rightarrow> Vector3i list
    \<Rightarrow> (Vector3i \<times> Vector3i list) option" where
  "dda_loop 0 delta step max_delta current_voxel error visited_voxels =
     Some (current_voxel, visited_voxels)"
| "dda_loop (Suc i) delta step max_delta current_voxel error visited_voxels =
     (case dda_body delta step max_delta (current_voxel, error) of
        None \<Rightarrow> None
      | Some (current_voxel', error') \<Rightarrow>
          dda_loop i delta step max_delta current_voxel' error'
            (visited_voxels @ [current_voxel]))"

text \<open>\<^verbatim>\<open>delta[0] = delta[0] < 0 ? -delta[0] : delta[0]\<close>.\<close>

definition abs_delta :: "int \<Rightarrow> int option" where
  "abs_delta d = (if d < 0 then checked (- d) else Some d)"

definition dda_run :: "Vector3i \<Rightarrow> Vector3i \<Rightarrow> (Vector3i \<times> Vector3i list) option" where
  "dda_run = (\<lambda>(x0, y0, z0) (x1, y1, z1). do {
     ex \<leftarrow> checked (x1 - x0);
     ey \<leftarrow> checked (y1 - y0);
     ez \<leftarrow> checked (z1 - z0);
     let sx = (if 0 \<le> ex then 1 else - 1);
     let sy = (if 0 \<le> ey then 1 else - 1);
     let sz = (if 0 \<le> ez then 1 else - 1);
     dx \<leftarrow> abs_delta ex;
     dy \<leftarrow> abs_delta ey;
     dz \<leftarrow> abs_delta ez;
     let max_delta = (if dy < dx then dx else dy);
     let max_delta = (if dz < max_delta then max_delta else dz);
     reserve \<leftarrow> checked (max_delta + 1);
     (current_voxel, visited_voxels) \<leftarrow>
       dda_loop (nat max_delta) (dx, dy, dz) (sx, sy, sz) max_delta (x0, y0, z0) (0, 0, 0) [];
     Some (current_voxel, visited_voxels @ [current_voxel]) })"

definition VoxelCastingDDA :: "(float \<Rightarrow> int) \<Rightarrow> Vector3f \<Rightarrow> Vector3f \<Rightarrow> float
    \<Rightarrow> error + Vector3i list" where
  "VoxelCastingDDA u = (\<lambda>(start_x, start_y, start_z) (end_x, end_y, end_z) step_size.
     let x0 = voxel_lround u start_x step_size;
         y0 = voxel_lround u start_y step_size;
         z0 = voxel_lround u start_z step_size
     in if isnan_int x0 \<or> isnan_int y0 \<or> isnan_int z0 then Inr []
        else
          let x1 = voxel_lround u end_x step_size;
              y1 = voxel_lround u end_y step_size;
              z1 = voxel_lround u end_z step_size
          in if isnan_int x1 \<or> isnan_int y1 \<or> isnan_int z1 then Inr []
             else
               (case dda_run (x0, y0, z0) (x1, y1, z1) of
                  None \<Rightarrow> Inl UndefinedBehaviour
                | Some (current_voxel, visited_voxels) \<Rightarrow>
                    if current_voxel = (x1, y1, z1) then Inr visited_voxels
                    else Inl CheckFailed))"

subsection \<open>The voxel index of the specification\<close>

text \<open>
  \<open>VoxelIndex\<close>: per axis the floor of the \<^verbatim>\<open>float\<close> quotient \<^verbatim>\<open>point[a] / step_size\<close>,
  as a mathematical integer; undefined when the quotient is NaN or an infinity.
\<close>

definition index_of :: "float \<Rightarrow> float \<Rightarrow> int option" where
  "index_of p step_size = (case fdiv p step_size of Fin q \<Rightarrow> Some \<lfloor>q\<rfloor> | _ \<Rightarrow> None)"

definition VoxelIndex :: "Vector3f \<Rightarrow> float \<Rightarrow> Vector3i option" where
  "VoxelIndex = (\<lambda>(px, py, pz) step_size. do {
     x \<leftarrow> index_of px step_size;
     y \<leftarrow> index_of py step_size;
     z \<leftarrow> index_of pz step_size;
     Some (x, y, z) })"

subsection \<open>Predicates of the claims\<close>

text \<open>
  \<open>unit_step a b\<close>: no axis of \<open>b\<close> is further than 1 from \<open>a\<close>; \<open>moved a b\<close>: a unit
  step that changes the voxel. \<open>max_abs_delta\<close> is the largest absolute index
  difference of the three axes, \<open>voxel_ok\<close> says that an index fits \<^verbatim>\<open>int\<close> on every
  axis, and \<open>lround_index\<close> is the start or end voxel as the two integer traversals
  compute it.
\<close>

definition unit_step :: "Vector3i \<Rightarrow> Vector3i \<Rightarrow> bool" where
  "unit_step = (\<lambda>(x, y, z) (x', y', z'). \<bar>x' - x\<bar> \<le> 1 \<and> \<bar>y' - y\<bar> \<le> 1 \<and> \<bar>z' - z\<bar> \<le> 1)"

definition moved :: "Vector3i \<Rightarrow> Vector3i \<Rightarrow> bool" where
  "moved a b = (a \<noteq> b \<and> unit_step a b)"

definition max_abs_delta :: "Vector3i \<Rightarrow> Vector3i \<Rightarrow> int" where
  "max_abs_delta = (\<lambda>(x0, y0, z0) (x1, y1, z1). max \<bar>x1 - x0\<bar> (max \<bar>y1 - y0\<bar> \<bar>z1 - z0\<bar>))"

definition voxel_ok :: "Vector3i \<Rightarrow> bool" where
  "voxel_ok = (\<lambda>(x, y, z). int_ok x \<and> int_ok y \<and> int_ok z)"

definition lround_index :: "(float \<Rightarrow> int) \<Rightarrow> Vector3f \<Rightarrow> float \<Rightarrow> Vector3i" where
  "lround_index u = (\<lambda>(px, py, pz) step_size.
     (voxel_lround u px step_size, voxel_lround u py step_size, voxel_lround u pz step_size))"

subsection \<open>Loop invariants\<close>

text \<open>
  The dominant axis (the one whose delta is the largest) steps in every pass: in
  \<^verbatim>\<open>VoxelCastingBresenham\<close> its accumulator stays below \<open>dm\<close>, in \<^verbatim>\<open>VoxelCastingDDA\<close> it
  returns to 0.
\<close>

definition dom_inv :: "Vector3i \<Rightarrow> int \<Rightarrow> Vector3i \<Rightarrow> bool" where
  "dom_inv = (\<lambda>(dx, dy, dz) dm (x1, y1, z1).
     (dx = dm \<and> x1 < dm) \<or> (dy = dm \<and> y1 < dm) \<or> (dz = dm \<and> z1 < dm))"

definition dda_dom :: "Vector3i \<Rightarrow> int \<Rightarrow> Vector3i \<Rightarrow> bool" where
  "dda_dom = (\<lambda>(dx, dy, dz) m (e0, e1, e2).
     (dx = m \<and> e0 = 0) \<or> (dy = m \<and> e1 = 0) \<or> (dz = m \<and> e2 = 0))"

text \<open>
  One axis with delta \<open>d\<close>, direction \<open>s\<close> and start index \<open>c0\<close>: after \<open>j\<close> passes it has
  made \<open>k\<close> steps and its accumulator is \<open>e\<close>.
\<close>

definition axis_ok :: "int \<Rightarrow> int \<Rightarrow> int \<Rightarrow> int \<Rightarrow> bool" where
  "axis_ok dm d s c0 = (0 \<le> d \<and> d \<le> dm \<and> int_ok c0 \<and> int_ok (c0 + s * d) \<and> \<bar>s\<bar> = 1)"

definition bres_inv :: "int \<Rightarrow> int \<Rightarrow> int \<Rightarrow> int \<Rightarrow> int \<Rightarrow> bool" where
  "bres_inv dm d j k e = (0 \<le> k \<and> k \<le> d \<and> e + j * d = dm div 2 + k * dm \<and> 0 \<le> e \<and> e < dm)"

definition dda_inv :: "int \<Rightarrow> int \<Rightarrow> int \<Rightarrow> int \<Rightarrow> int \<Rightarrow> bool" where
  "dda_inv m d j k e = (0 \<le> k \<and> k \<le> d \<and> e + k * m = j * d \<and> - m \<le> 2 * e \<and> 2 * e < m)"

section \<open>Properties\<close>

subsection \<open>Paths of \<^verbatim>\<open>VoxelCasting\<close>\<close>

lemma checked_Some [simp]: "checked n = Some m \<longleftrightarrow> int_ok n \<and> m = n"
  by (auto simp: checked_def)

lemma checked_None [simp]: "checked n = None \<longleftrightarrow> \<not> int_ok n"
  by (simp add: checked_def)

lemma step_of_cases: "step_of r = 1 \<or> step_of r = - 1"
  by (simp add: step_of_def)

lemma abs_step_of [simp]: "\<bar>step_of r\<bar> = 1"
  by (simp add: step_of_def)

lemma cast_step_moved:
  assumes "cast_step (sx, sy, sz) td (c, t) = Some (c', t')"
    and "\<bar>sx\<bar> = 1" "\<bar>sy\<bar> = 1" "\<bar>sz\<bar> = 1"
  shows "moved c c'"
proof -
  obtain cx cy cz where c: "c = (cx, cy, cz)" by (cases c) auto
  obtain tx ty tz where t: "t = (tx, ty, tz)" by (cases t) auto
  obtain dx dy dz where td: "td = (dx, dy, dz)" by (cases td) auto
  from assms show ?thesis
    unfolding c t td cast_step_def moved_def unit_step_def
    by (auto split: if_splits simp: bind_eq_Some_conv)
qed

lemma cast_loop_path:
  assumes "cast_loop n e (sx, sy, sz) td c t vis = Some (Inr p)"
    and "\<bar>sx\<bar> = 1" "\<bar>sy\<bar> = 1" "\<bar>sz\<bar> = 1"
  shows "\<exists>q. p = vis @ q \<and> successively moved (c # q) \<and> last (c # q) = e"
  using assms(1)
proof (induction n arbitrary: c t vis)
  case 0
  then show ?case
    by (subst (asm) cast_loop.simps) (auto split: if_splits)
next
  case (Suc n)
  show ?case
  proof (cases "e = c")
    case True
    with Suc.prems show ?thesis
      by (subst (asm) cast_loop.simps) auto
  next
    case False
    with Suc.prems obtain c' t' where
      st: "cast_step (sx, sy, sz) td (c, t) = Some (c', t')" and
      lp: "cast_loop n e (sx, sy, sz) td c' t' (vis @ [c']) = Some (Inr p)"
      by (subst (asm) cast_loop.simps) (auto split: option.splits)
    from Suc.IH [OF lp] obtain q where
      q: "p = (vis @ [c']) @ q" "successively moved (c' # q)" "last (c' # q) = e"
      by blast
    have "moved c c'"
      using cast_step_moved [OF st assms(2-4)] .
    with q show ?thesis
      by (intro exI [of _ "c' # q"]) simp
  qed
qed

lemma diff_of_cases: "diff_of a b r = 0 \<or> diff_of a b r = - 1"
  by (simp add: diff_of_def)

lemma cast_init_shape:
  assumes "cast_init s e st a b = Some (step, td, c, t, vis)"
  shows "(\<exists>sx sy sz. step = (sx, sy, sz) \<and> \<bar>sx\<bar> = 1 \<and> \<bar>sy\<bar> = 1 \<and> \<bar>sz\<bar> = 1) \<and>
         (vis = [a] \<and> c = a \<or> vis = [a, c] \<and> moved a c)"
proof -
  obtain s1 s2 s3 where s: "s = (s1, s2, s3)" by (cases s) auto
  obtain e1 e2 e3 where e: "e = (e1, e2, e3)" by (cases e) auto
  obtain a1 a2 a3 where a: "a = (a1, a2, a3)" by (cases a) auto
  obtain b1 b2 b3 where b: "b = (b1, b2, b3)" by (cases b) auto
  have d: "diff_of x y r = 0 \<or> diff_of x y r = - 1" for x y r
    by (rule diff_of_cases)
  from assms show ?thesis
    unfolding s e a b cast_init_def Let_def moved_def unit_step_def
    using d [of a1 b1 "fsub e1 s1"] d [of a2 b2 "fsub e2 s2"] d [of a3 b3 "fsub e3 s3"]
    by (auto simp: bind_eq_Some_conv split: if_splits)
qed

lemma VoxelCasting_path:
  assumes "VoxelCasting n s e st = Some (Inr p)"
  shows "\<exists>a b. voxel_of_floats s st = Some a \<and> voxel_of_floats e st = Some b \<and>
           p \<noteq> [] \<and> hd p = a \<and> last p = b \<and> successively moved p"
proof -
  from assms obtain a b where
    a: "voxel_of_floats s st = Some a" and b: "voxel_of_floats e st = Some b"
    by (auto simp: VoxelCasting_def split: option.splits)
  show ?thesis
  proof (cases "a = b")
    case True
    with assms a b show ?thesis
      by (auto simp: VoxelCasting_def)
  next
    case False
    with assms a b obtain step td c t vis where
      init: "cast_init s e st a b = Some (step, td, c, t, vis)" and
      lp: "cast_loop n b step td c t vis = Some (Inr p)"
      by (auto simp: VoxelCasting_def split: option.splits)
    from cast_init_shape [OF init] obtain sx sy sz where
      step: "step = (sx, sy, sz)" "\<bar>sx\<bar> = 1" "\<bar>sy\<bar> = 1" "\<bar>sz\<bar> = 1" and
      vis: "vis = [a] \<and> c = a \<or> vis = [a, c] \<and> moved a c"
      by blast
    from cast_loop_path [OF lp [unfolded step(1)] step(2-4)] obtain q where
      q: "p = vis @ q" "successively moved (c # q)" "last (c # q) = b"
      by blast
    from vis q a b show ?thesis
      by (auto simp: successively_Cons)
  qed
qed

subsection \<open>Paths of \<^verbatim>\<open>VoxelCastingBresenham\<close>\<close>

lemma bres_axis_Some:
  assumes "bres_axis dm d s (e, c) = Some (e', c')"
  shows "(e < d \<and> e' = e - d + dm \<and> c' = c + s) \<or> (d \<le> e \<and> e' = e - d \<and> c' = c)"
  using assms by (auto simp: bres_axis_def bind_eq_Some_conv split: if_splits)

lemma bres_axis_unit:
  assumes "bres_axis dm d s (e, c) = Some (e', c')" and "\<bar>s\<bar> = 1"
  shows "\<bar>c' - c\<bar> \<le> 1"
  using bres_axis_Some [OF assms(1)] assms(2) by auto

lemma bres_axis_dom:
  assumes "bres_axis dm dm s (e, c) = Some (e', c')" and "e < dm" and "\<bar>s\<bar> = 1"
  shows "c' \<noteq> c \<and> e' < dm"
  using bres_axis_Some [OF assms(1)] assms(2,3) by auto

lemma bres_body_moved:
  assumes "bres_body (dx, dy, dz) (sx, sy, sz) dm (c, e) = Some (c', e')"
    and "\<bar>sx\<bar> = 1" "\<bar>sy\<bar> = 1" "\<bar>sz\<bar> = 1"
    and "dom_inv (dx, dy, dz) dm e"
  shows "moved c c' \<and> dom_inv (dx, dy, dz) dm e'"
proof -
  obtain x0 y0 z0 where c: "c = (x0, y0, z0)" by (cases c) auto
  obtain x1 y1 z1 where e: "e = (x1, y1, z1)" by (cases e) auto
  from assms(1) obtain x1' x0' y1' y0' z1' z0' where
    x: "bres_axis dm dx sx (x1, x0) = Some (x1', x0')" and
    y: "bres_axis dm dy sy (y1, y0) = Some (y1', y0')" and
    z: "bres_axis dm dz sz (z1, z0) = Some (z1', z0')" and
    r: "c' = (x0', y0', z0')" "e' = (x1', y1', z1')"
    unfolding c e bres_body_def by (auto simp: bind_eq_Some_conv)
  have u: "unit_step c c'"
    using bres_axis_unit [OF x assms(2)] bres_axis_unit [OF y assms(3)]
      bres_axis_unit [OF z assms(4)]
    by (simp add: c r unit_step_def)
  from assms(5) consider "dx = dm" "x1 < dm" | "dy = dm" "y1 < dm" | "dz = dm" "z1 < dm"
    unfolding e dom_inv_def by auto
  then have "c \<noteq> c' \<and> dom_inv (dx, dy, dz) dm e'"
  proof cases
    case 1
    with bres_axis_dom [of dm sx x1 x0 x1' x0'] x assms(2) show ?thesis
      by (auto simp: c r dom_inv_def)
  next
    case 2
    with bres_axis_dom [of dm sy y1 y0 y1' y0'] y assms(3) show ?thesis
      by (auto simp: c r dom_inv_def)
  next
    case 3
    with bres_axis_dom [of dm sz z1 z0 z1' z0'] z assms(4) show ?thesis
      by (auto simp: c r dom_inv_def)
  qed
  with u show ?thesis by (simp add: moved_def)
qed

lemma bres_loop_path:
  assumes "bres_loop i (dx, dy, dz) (sx, sy, sz) dm c e vis = Some (fin, p)"
    and "\<bar>sx\<bar> = 1" "\<bar>sy\<bar> = 1" "\<bar>sz\<bar> = 1"
    and "i = 0 \<or> dom_inv (dx, dy, dz) dm e"
  shows "\<exists>q. p = vis @ c # q \<and> length q = i \<and> last (c # q) = fin \<and> successively moved (c # q)"
  using assms(1,5)
proof (induction i arbitrary: c e vis)
  case 0
  then show ?case by auto
next
  case (Suc i)
  from Suc.prems obtain c' e' where
    body: "bres_body (dx, dy, dz) (sx, sy, sz) dm (c, e) = Some (c', e')" and
    lp: "bres_loop i (dx, dy, dz) (sx, sy, sz) dm c' e' (vis @ [c]) = Some (fin, p)"
    by (auto split: option.splits)
  from Suc.prems have "dom_inv (dx, dy, dz) dm e" by simp
  from bres_body_moved [OF body assms(2-4) this]
  have m: "moved c c'" and d: "dom_inv (dx, dy, dz) dm e'" by simp_all
  from Suc.IH [OF lp] d obtain q where
    q: "p = (vis @ [c]) @ c' # q" "length q = i" "last (c' # q) = fin"
       "successively moved (c' # q)"
    by blast
  with m show ?case
    by (intro exI [of _ "c' # q"]) simp
qed


lemma bres_run_path:
  assumes "bres_run a b = Some (fin, p)"
  shows "\<exists>q. p = a # q \<and> int (length q) = max_abs_delta a b \<and> last p = fin \<and>
           successively moved p"
proof -
  obtain x0 y0 z0 where a: "a = (x0, y0, z0)" by (cases a) auto
  obtain x1 y1 z1 where b: "b = (x1, y1, z1)" by (cases b) auto
  define dm where "dm = max \<bar>x1 - x0\<bar> (max \<bar>y1 - y0\<bar> \<bar>z1 - z0\<bar>)"
  define sx :: int where "sx = (if x0 < x1 then 1 else - 1)"
  define sy :: int where "sy = (if y0 < y1 then 1 else - 1)"
  define sz :: int where "sz = (if z0 < z1 then 1 else - 1)"
  from assms have
    lp: "bres_loop (nat dm) (\<bar>x1 - x0\<bar>, \<bar>y1 - y0\<bar>, \<bar>z1 - z0\<bar>) (sx, sy, sz) dm (x0, y0, z0)
           (dm div 2, dm div 2, dm div 2) [] = Some (fin, p)"
    unfolding a b bres_run_def dm_def sx_def sy_def sz_def abs_int_def
    by (auto simp: bind_eq_Some_conv Let_def)
  have s: "\<bar>sx\<bar> = 1" "\<bar>sy\<bar> = 1" "\<bar>sz\<bar> = 1"
    by (simp_all add: sx_def sy_def sz_def)
  have "0 \<le> dm" by (simp add: dm_def)
  have inv: "nat dm = 0 \<or> dom_inv (\<bar>x1 - x0\<bar>, \<bar>y1 - y0\<bar>, \<bar>z1 - z0\<bar>) dm (dm div 2, dm div 2, dm div 2)"
  proof (cases "dm = 0")
    case True
    then show ?thesis by simp
  next
    case False
    with \<open>0 \<le> dm\<close> have "dm div 2 < dm" by simp
    moreover have "\<bar>x1 - x0\<bar> = dm \<or> \<bar>y1 - y0\<bar> = dm \<or> \<bar>z1 - z0\<bar> = dm"
      unfolding dm_def by (auto simp: max_def)
    ultimately show ?thesis by (auto simp: dom_inv_def)
  qed
  from bres_loop_path [OF lp s inv] obtain q where
    q: "p = [] @ (x0, y0, z0) # q" "length q = nat dm" "last ((x0, y0, z0) # q) = fin"
       "successively moved ((x0, y0, z0) # q)"
    by blast
  have "max_abs_delta a b = dm"
    by (simp add: a b max_abs_delta_def dm_def)
  with q \<open>0 \<le> dm\<close> show ?thesis
    by (intro exI [of _ q]) (simp add: a)
qed

subsection \<open>Paths of \<^verbatim>\<open>VoxelCastingDDA\<close>\<close>

lemma int_of_long_id: "int_ok n \<Longrightarrow> int_of_long n = n"
  by (simp add: int_of_long_def int_ok_def INT_MIN_def INT_MAX_def)

lemma int_ok_int_of_long: "int_ok (int_of_long n)"
  by (simp add: int_of_long_def int_ok_def INT_MIN_def INT_MAX_def)

lemma shl1_small: "- 1073741824 \<le> n \<Longrightarrow> n < 1073741824 \<Longrightarrow> shl1 n = 2 * n"
  by (simp add: shl1_def int_of_long_id int_ok_def INT_MIN_def INT_MAX_def)

lemma shl1_large:
  assumes "1073741824 \<le> n" and "int_ok n"
  shows "shl1 n < 0"
proof -
  have "(2 * n - 2147483648 + 4294967296) mod 4294967296 = (2 * n - 2147483648) mod 4294967296"
    by (rule mod_add_self2)
  moreover have "(2 * n - 2147483648) mod 4294967296 = 2 * n - 2147483648"
    using assms by (intro mod_pos_pos_trivial) (simp_all add: int_ok_def INT_MAX_def)
  moreover have "2 * n - 2147483648 + 4294967296 = 2 * n + 2147483648"
    by simp
  ultimately have "(2 * n + 2147483648) mod 4294967296 = 2 * n - 2147483648"
    by simp
  with assms show ?thesis
    by (simp add: shl1_def int_of_long_def int_ok_def INT_MAX_def)
qed

lemma dda_axis_Some:
  assumes "dda_axis m s (e, c) = Some (e', c')"
  shows "(m \<le> shl1 e \<and> c' = c + s \<and> e' = e - m) \<or> (shl1 e < m \<and> c' = c \<and> e' = e)"
  using assms by (auto simp: dda_axis_def bind_eq_Some_conv split: if_splits)

lemma dda_axis_unit:
  assumes "dda_axis m s (e, c) = Some (e', c')" and "\<bar>s\<bar> = 1"
  shows "\<bar>c' - c\<bar> \<le> 1"
  using dda_axis_Some [OF assms(1)] assms(2) by auto

lemma dda_axis_dom:
  assumes "dda_axis m s (0 + m, c) = Some (e', c')" and "0 < m" "m < 1073741824" and "\<bar>s\<bar> = 1"
  shows "c' \<noteq> c \<and> e' = 0"
  using dda_axis_Some [OF assms(1)] assms(2-4) by (auto simp: shl1_small)

lemma dda_axis_large:
  assumes "dda_axis m s (0 + m, c) = Some (e', c')" and "1073741824 \<le> m" "int_ok (0 + m)"
  shows "\<not> int_ok (e' + m)"
  using dda_axis_Some [OF assms(1)] assms(2,3) shl1_large [of m]
  by (auto simp: int_ok_def INT_MAX_def INT_MIN_def)

lemma dda_body_Some:
  assumes "dda_body (dx, dy, dz) (sx, sy, sz) m ((cx, cy, cz), (e0, e1, e2)) = Some (c', e')"
  obtains cx' cy' cz' e0' e1' e2' where
    "int_ok (e0 + dx)" "int_ok (e1 + dy)" "int_ok (e2 + dz)"
    "dda_axis m sx (e0 + dx, cx) = Some (e0', cx')"
    "dda_axis m sy (e1 + dy, cy) = Some (e1', cy')"
    "dda_axis m sz (e2 + dz, cz) = Some (e2', cz')"
    "c' = (cx', cy', cz')" "e' = (e0', e1', e2')"
  using assms unfolding dda_body_def by (auto simp: bind_eq_Some_conv)

lemma dda_body_moved:
  assumes "dda_body (dx, dy, dz) (sx, sy, sz) m (c, e) = Some (c', e')"
    and "\<bar>sx\<bar> = 1" "\<bar>sy\<bar> = 1" "\<bar>sz\<bar> = 1"
    and "dda_dom (dx, dy, dz) m e" and "0 < m" "m < 1073741824"
  shows "moved c c' \<and> dda_dom (dx, dy, dz) m e'"
proof -
  obtain cx cy cz where c: "c = (cx, cy, cz)" by (cases c) auto
  obtain e0 e1 e2 where e: "e = (e0, e1, e2)" by (cases e) auto
  from assms(1) [unfolded c e] obtain cx' cy' cz' e0' e1' e2' where
    x: "dda_axis m sx (e0 + dx, cx) = Some (e0', cx')" and
    y: "dda_axis m sy (e1 + dy, cy) = Some (e1', cy')" and
    z: "dda_axis m sz (e2 + dz, cz) = Some (e2', cz')" and
    r: "c' = (cx', cy', cz')" "e' = (e0', e1', e2')"
    by (rule dda_body_Some)
  have u: "unit_step c c'"
    using dda_axis_unit [OF x assms(2)] dda_axis_unit [OF y assms(3)]
      dda_axis_unit [OF z assms(4)]
    by (simp add: c r unit_step_def)
  from assms(5) consider "dx = m" "e0 = 0" | "dy = m" "e1 = 0" | "dz = m" "e2 = 0"
    unfolding e dda_dom_def by auto
  then have "c \<noteq> c' \<and> dda_dom (dx, dy, dz) m e'"
  proof cases
    case 1
    with dda_axis_dom [of m sx cx e0' cx'] x assms(2,6,7) show ?thesis
      by (auto simp: c r dda_dom_def)
  next
    case 2
    with dda_axis_dom [of m sy cy e1' cy'] y assms(3,6,7) show ?thesis
      by (auto simp: c r dda_dom_def)
  next
    case 3
    with dda_axis_dom [of m sz cz e2' cz'] z assms(4,6,7) show ?thesis
      by (auto simp: c r dda_dom_def)
  qed
  with u show ?thesis by (simp add: moved_def)
qed

lemma dda_body_large:
  assumes "dda_body (dx, dy, dz) (sx, sy, sz) m (c, e) = Some (c', e')"
    and "dda_dom (dx, dy, dz) m e" and "1073741824 \<le> m"
  shows "dda_body (dx, dy, dz) (sx, sy, sz) m (c', e') = None"
proof -
  obtain cx cy cz where c: "c = (cx, cy, cz)" by (cases c) auto
  obtain e0 e1 e2 where e: "e = (e0, e1, e2)" by (cases e) auto
  from assms(1) [unfolded c e] obtain cx' cy' cz' e0' e1' e2' where
    ok: "int_ok (e0 + dx)" "int_ok (e1 + dy)" "int_ok (e2 + dz)" and
    x: "dda_axis m sx (e0 + dx, cx) = Some (e0', cx')" and
    y: "dda_axis m sy (e1 + dy, cy) = Some (e1', cy')" and
    z: "dda_axis m sz (e2 + dz, cz) = Some (e2', cz')" and
    r: "c' = (cx', cy', cz')" "e' = (e0', e1', e2')"
    by (rule dda_body_Some)
  from assms(2) consider "dx = m" "e0 = 0" | "dy = m" "e1 = 0" | "dz = m" "e2 = 0"
    unfolding e dda_dom_def by auto
  then have "\<not> int_ok (e0' + dx) \<or> \<not> int_ok (e1' + dy) \<or> \<not> int_ok (e2' + dz)"
  proof cases
    case 1
    with dda_axis_large [of m sx cx e0' cx'] x ok assms(3) show ?thesis by simp
  next
    case 2
    with dda_axis_large [of m sy cy e1' cy'] y ok assms(3) show ?thesis by simp
  next
    case 3
    with dda_axis_large [of m sz cz e2' cz'] z ok assms(3) show ?thesis by simp
  qed
  then show ?thesis
    unfolding r dda_body_def by (auto simp: bind_eq_None_conv)
qed

lemma dda_loop_large:
  assumes "dda_dom (dx, dy, dz) m e" and "1073741824 \<le> m"
  shows "dda_loop (Suc (Suc k)) (dx, dy, dz) (sx, sy, sz) m c e vis = None"
proof (cases "dda_body (dx, dy, dz) (sx, sy, sz) m (c, e)")
  case None
  then show ?thesis by simp
next
  case (Some r)
  obtain c' e' where r: "r = (c', e')" by (cases r) auto
  from dda_body_large [OF Some [unfolded r] assms] Some r show ?thesis by simp
qed

lemma dda_loop_path:
  assumes "dda_loop i (dx, dy, dz) (sx, sy, sz) m c e vis = Some (fin, p)"
    and "\<bar>sx\<bar> = 1" "\<bar>sy\<bar> = 1" "\<bar>sz\<bar> = 1"
    and "i = 0 \<or> dda_dom (dx, dy, dz) m e" and "0 < m" "m < 1073741824"
  shows "\<exists>q. p @ [fin] = vis @ c # q \<and> length q = i \<and> successively moved (c # q)"
  using assms(1,5)
proof (induction i arbitrary: c e vis)
  case 0
  then show ?case by auto
next
  case (Suc i)
  from Suc.prems obtain c' e' where
    body: "dda_body (dx, dy, dz) (sx, sy, sz) m (c, e) = Some (c', e')" and
    lp: "dda_loop i (dx, dy, dz) (sx, sy, sz) m c' e' (vis @ [c]) = Some (fin, p)"
    by (auto split: option.splits)
  from Suc.prems have "dda_dom (dx, dy, dz) m e" by simp
  from dda_body_moved [OF body assms(2-4) this assms(6,7)]
  have m: "moved c c'" and d: "dda_dom (dx, dy, dz) m e'" by simp_all
  from Suc.IH [OF lp] d obtain q where
    q: "p @ [fin] = (vis @ [c]) @ c' # q" "length q = i" "successively moved (c' # q)"
    by blast
  with m show ?case
    by (intro exI [of _ "c' # q"]) simp
qed

lemma abs_delta_Some: "abs_delta d = Some d' \<Longrightarrow> d' = \<bar>d\<bar>"
  by (auto simp: abs_delta_def split: if_splits)

lemma dda_run_path:
  assumes "dda_run a b = Some (fin, p)"
  shows "\<exists>q. p = a # q \<and> int (length q) = max_abs_delta a b \<and> last p = fin \<and>
           successively moved p"
proof -
  obtain x0 y0 z0 where a: "a = (x0, y0, z0)" by (cases a) auto
  obtain x1 y1 z1 where b: "b = (x1, y1, z1)" by (cases b) auto
  define m where "m = max \<bar>x1 - x0\<bar> (max \<bar>y1 - y0\<bar> \<bar>z1 - z0\<bar>)"
  define sx :: int where "sx = (if 0 \<le> x1 - x0 then 1 else - 1)"
  define sy :: int where "sy = (if 0 \<le> y1 - y0 then 1 else - 1)"
  define sz :: int where "sz = (if 0 \<le> z1 - z0 then 1 else - 1)"
  have m_alt: "(if \<bar>z1 - z0\<bar> < (if \<bar>y1 - y0\<bar> < \<bar>x1 - x0\<bar> then \<bar>x1 - x0\<bar> else \<bar>y1 - y0\<bar>)
      then (if \<bar>y1 - y0\<bar> < \<bar>x1 - x0\<bar> then \<bar>x1 - x0\<bar> else \<bar>y1 - y0\<bar>) else \<bar>z1 - z0\<bar>) = m"
    unfolding m_def by (simp add: max_def)
  from assms obtain vis where
    lp: "dda_loop (nat m) (\<bar>x1 - x0\<bar>, \<bar>y1 - y0\<bar>, \<bar>z1 - z0\<bar>) (sx, sy, sz) m (x0, y0, z0)
           (0, 0, 0) [] = Some (fin, vis)" and p: "p = vis @ [fin]"
    unfolding a b dda_run_def sx_def sy_def sz_def
    by (auto simp: bind_eq_Some_conv Let_def m_alt dest!: abs_delta_Some)
  have s: "\<bar>sx\<bar> = 1" "\<bar>sy\<bar> = 1" "\<bar>sz\<bar> = 1"
    by (simp_all add: sx_def sy_def sz_def)
  have "0 \<le> m" by (simp add: m_def)
  have dom: "dda_dom (\<bar>x1 - x0\<bar>, \<bar>y1 - y0\<bar>, \<bar>z1 - z0\<bar>) m (0, 0, 0)"
    unfolding m_def dda_dom_def by (auto simp: max_def)
  have md: "max_abs_delta a b = m"
    by (simp add: a b max_abs_delta_def m_def)
  consider "m = 0" | "0 < m" "m < 1073741824" | "1073741824 \<le> m"
    using \<open>0 \<le> m\<close> by linarith
  then show ?thesis
  proof cases
    case 1
    with lp p md show ?thesis by (auto simp: a moved_def)
  next
    case 2
    from dda_loop_path [OF lp s _ 2] dom obtain q where
      q: "vis @ [fin] = [] @ (x0, y0, z0) # q" "length q = nat m"
         "successively moved ((x0, y0, z0) # q)"
      by blast
    moreover have "last p = fin"
      by (simp add: p)
    ultimately show ?thesis
      using p md \<open>0 \<le> m\<close> by (intro exI [of _ q]) (simp add: a)
  next
    case 3
    then have "2 \<le> nat m" by simp
    then obtain j where "nat m = 2 + j"
      by (auto simp: nat_le_iff_add)
    then obtain k where "nat m = Suc (Suc k)"
      by simp
    with dda_loop_large [OF dom 3] lp show ?thesis by simp
  qed
qed

subsection \<open>\<^verbatim>\<open>VoxelCastingBresenham\<close> reaches the end voxel\<close>

lemma checked_ok: "int_ok n \<Longrightarrow> checked n = Some n"
  by simp

lemma between_ok:
  assumes "int_ok c0" "int_ok (c0 + s * d)" "\<bar>s\<bar> = 1" "0 \<le> k" "k \<le> d"
  shows "int_ok (c0 + s * k)"
proof (cases "s = 1")
  case True
  with assms show ?thesis by (simp add: int_ok_def)
next
  case False
  with assms have "s = - 1" by (simp add: abs_if split: if_splits)
  with assms show ?thesis by (simp add: int_ok_def)
qed

lemma bres_axis_total:
  assumes ok: "axis_ok dm d s c0" and inv: "bres_inv dm d j k e"
    and j: "0 \<le> j" "j < dm" and dm: "dm \<le> INT_MAX"
  shows "\<exists>e' k'. bres_axis dm d s (e, c0 + s * k) = Some (e', c0 + s * k') \<and>
           bres_inv dm d (j + 1) k' e'"
proof -
  from ok have d: "0 \<le> d" "d \<le> dm" and c0: "int_ok c0" "int_ok (c0 + s * d)" and s: "\<bar>s\<bar> = 1"
    by (simp_all add: axis_ok_def)
  from inv have k: "0 \<le> k" "k \<le> d" and eq: "e + j * d = dm div 2 + k * dm"
    and e: "0 \<le> e" "e < dm"
    by (simp_all add: bres_inv_def)
  have h: "0 \<le> dm div 2" "dm div 2 < dm" using j by simp_all
  have ok1: "int_ok (e - d)"
    using e d dm by (simp add: int_ok_def INT_MIN_def INT_MAX_def)
  show ?thesis
  proof (cases "e < d")
    case True
    let ?e = "e - d + dm"
    have e': "0 \<le> ?e" "?e < dm" using True d e by simp_all
    have eq': "?e + (j + 1) * d = dm div 2 + (k + 1) * dm"
      using eq by (simp add: algebra_simps)
    have "(j + 1) * d \<le> dm * d"
      using j d by (intro mult_right_mono) simp_all
    with eq' h have "(k + 1) * dm \<le> ?e + dm * d"
      by linarith
    moreover have "(d + 1) * dm = dm * d + dm"
      by (simp add: algebra_simps)
    ultimately have "(k + 1) * dm < (d + 1) * dm"
      using e' by linarith
    with j have k': "k + 1 \<le> d"
      by (simp add: mult_less_cancel_right)
    have ok2: "int_ok ?e"
      using e' dm by (simp add: int_ok_def INT_MIN_def INT_MAX_def)
    have ok3: "int_ok (c0 + s * (k + 1))"
      using between_ok [OF c0 s _ k'] k by simp
    have c: "c0 + s * k + s = c0 + s * (k + 1)"
      by (simp add: algebra_simps)
    have ok3': "int_ok (c0 + s * k + s)"
      using ok3 by (simp only: c)
    have "bres_axis dm d s (e, c0 + s * k) = Some (?e, c0 + s * k + s)"
      using True ok1 ok2 ok3' by (simp add: bres_axis_def checked_ok)
    then have "bres_axis dm d s (e, c0 + s * k) = Some (?e, c0 + s * (k + 1))"
      by (simp only: c)
    moreover have "bres_inv dm d (j + 1) (k + 1) ?e"
      using k k' eq' e' by (simp add: bres_inv_def)
    ultimately show ?thesis by blast
  next
    case False
    let ?e = "e - d"
    have e': "0 \<le> ?e" "?e < dm" using False d e by simp_all
    have eq': "?e + (j + 1) * d = dm div 2 + k * dm"
      using eq by (simp add: algebra_simps)
    have "bres_axis dm d s (e, c0 + s * k) = Some (?e, c0 + s * k)"
      using False ok1 by (simp add: bres_axis_def checked_ok)
    moreover have "bres_inv dm d (j + 1) k ?e"
      using k eq' e' by (simp add: bres_inv_def)
    ultimately show ?thesis by blast
  qed
qed

lemma bres_inv_final:
  assumes "bres_inv dm d dm k e"
  shows "k = d"
proof -
  from assms have eq: "e + dm * d = dm div 2 + k * dm" and e: "0 \<le> e" "e < dm"
    by (simp_all add: bres_inv_def)
  have h: "0 \<le> dm div 2" "dm div 2 < dm" using e by simp_all
  from eq have *: "(k - d) * dm = e - dm div 2"
    by (simp add: algebra_simps)
  show ?thesis
  proof (rule ccontr)
    assume "k \<noteq> d"
    then consider "1 \<le> k - d" | "k - d \<le> - 1" by linarith
    then show False
    proof cases
      case 1
      then have "1 * dm \<le> (k - d) * dm"
        using e by (intro mult_right_mono) simp_all
      with * e h show False by simp
    next
      case 2
      then have "(k - d) * dm \<le> (- 1) * dm"
        using e by (intro mult_right_mono) simp_all
      with * e h show False by simp
    qed
  qed
qed

lemma bres_body_total:
  assumes "axis_ok dm dx sx ax" "axis_ok dm dy sy ay" "axis_ok dm dz sz az"
    and "bres_inv dm dx j kx x1" "bres_inv dm dy j ky y1" "bres_inv dm dz j kz z1"
    and "0 \<le> j" "j < dm" "dm \<le> INT_MAX"
  shows "\<exists>x1' y1' z1' kx' ky' kz'.
           bres_body (dx, dy, dz) (sx, sy, sz) dm
             ((ax + sx * kx, ay + sy * ky, az + sz * kz), (x1, y1, z1)) =
             Some ((ax + sx * kx', ay + sy * ky', az + sz * kz'), (x1', y1', z1')) \<and>
           bres_inv dm dx (j + 1) kx' x1' \<and> bres_inv dm dy (j + 1) ky' y1' \<and>
           bres_inv dm dz (j + 1) kz' z1'"
proof -
  from bres_axis_total [OF assms(1,4,7-9)] obtain x1' kx' where
    x: "bres_axis dm dx sx (x1, ax + sx * kx) = Some (x1', ax + sx * kx')"
       "bres_inv dm dx (j + 1) kx' x1'" by blast
  from bres_axis_total [OF assms(2,5,7-9)] obtain y1' ky' where
    y: "bres_axis dm dy sy (y1, ay + sy * ky) = Some (y1', ay + sy * ky')"
       "bres_inv dm dy (j + 1) ky' y1'" by blast
  from bres_axis_total [OF assms(3,6,7-9)] obtain z1' kz' where
    z: "bres_axis dm dz sz (z1, az + sz * kz) = Some (z1', az + sz * kz')"
       "bres_inv dm dz (j + 1) kz' z1'" by blast
  from x y z show ?thesis
    unfolding bres_body_def
    by (intro exI [of _ x1'] exI [of _ y1'] exI [of _ z1'] exI [of _ kx'] exI [of _ ky']
        exI [of _ kz']) simp
qed

lemma bres_loop_total:
  assumes "axis_ok dm dx sx ax" "axis_ok dm dy sy ay" "axis_ok dm dz sz az"
    and "dm \<le> INT_MAX"
    and "bres_inv dm dx j kx x1" "bres_inv dm dy j ky y1" "bres_inv dm dz j kz z1"
    and "0 \<le> j" "int i = dm - j"
  shows "\<exists>p. bres_loop i (dx, dy, dz) (sx, sy, sz) dm
           (ax + sx * kx, ay + sy * ky, az + sz * kz) (x1, y1, z1) vis =
           Some ((ax + sx * dx, ay + sy * dy, az + sz * dz), p)"
  using assms(5-9)
proof (induction i arbitrary: j kx ky kz x1 y1 z1 vis)
  case 0
  then have "j = dm" by simp
  with 0 bres_inv_final [of dm dx kx x1] bres_inv_final [of dm dy ky y1]
    bres_inv_final [of dm dz kz z1]
  show ?case by simp
next
  case (Suc i)
  then have j: "0 \<le> j" "j < dm" and i: "int i = dm - (j + 1)" by simp_all
  from bres_body_total [OF assms(1-3) Suc.prems(1-3) j assms(4)]
  obtain x1' y1' z1' kx' ky' kz' where
    body: "bres_body (dx, dy, dz) (sx, sy, sz) dm
             ((ax + sx * kx, ay + sy * ky, az + sz * kz), (x1, y1, z1)) =
             Some ((ax + sx * kx', ay + sy * ky', az + sz * kz'), (x1', y1', z1'))" and
    inv: "bres_inv dm dx (j + 1) kx' x1'" "bres_inv dm dy (j + 1) ky' y1'"
         "bres_inv dm dz (j + 1) kz' z1'"
    by blast
  from Suc.IH [OF inv _ i] j body show ?case
    by simp
qed

lemma bres_run_total:
  assumes "int_ok x0" "int_ok y0" "int_ok z0" "int_ok x1" "int_ok y1" "int_ok z1"
    and "max_abs_delta (x0, y0, z0) (x1, y1, z1) < INT_MAX"
  shows "\<exists>p. bres_run (x0, y0, z0) (x1, y1, z1) = Some ((x1, y1, z1), p)"
proof -
  define dx dy dz where "dx = \<bar>x1 - x0\<bar>" and "dy = \<bar>y1 - y0\<bar>" and "dz = \<bar>z1 - z0\<bar>"
  define dm where "dm = max dx (max dy dz)"
  define sx :: int where "sx = (if x0 < x1 then 1 else - 1)"
  define sy :: int where "sy = (if y0 < y1 then 1 else - 1)"
  define sz :: int where "sz = (if z0 < z1 then 1 else - 1)"
  from assms(7) have dm: "dm < INT_MAX"
    by (simp add: max_abs_delta_def dm_def dx_def dy_def dz_def)
  have d: "0 \<le> dx" "dx \<le> dm" "0 \<le> dy" "dy \<le> dm" "0 \<le> dz" "dz \<le> dm"
    by (simp_all add: dm_def dx_def dy_def dz_def)
  have e: "x0 + sx * dx = x1" "y0 + sy * dy = y1" "z0 + sz * dz = z1"
    by (simp_all add: sx_def sy_def sz_def dx_def dy_def dz_def)
  have ok: "axis_ok dm dx sx x0" "axis_ok dm dy sy y0" "axis_ok dm dz sz z0"
    using assms(1-6) d e by (simp_all add: axis_ok_def) (simp_all add: sx_def sy_def sz_def)
  have chk: "int_ok (x1 - x0)" "int_ok (y1 - y0)" "int_ok (z1 - z0)"
    "int_ok dx" "int_ok dy" "int_ok dz" "int_ok (dm + 1)"
    using d dm by (auto simp: int_ok_def INT_MIN_def INT_MAX_def dx_def dy_def dz_def)
  have "\<exists>p. bres_loop (nat dm) (dx, dy, dz) (sx, sy, sz) dm (x0, y0, z0)
          (dm div 2, dm div 2, dm div 2) [] = Some ((x1, y1, z1), p)"
  proof (cases "dm = 0")
    case True
    with d have "dx = 0" "dy = 0" "dz = 0" by simp_all
    with e True show ?thesis by simp
  next
    case False
    with d have pos: "0 < dm" by simp
    then have h: "0 \<le> dm div 2" "dm div 2 < dm" by simp_all
    have inv: "bres_inv dm dx 0 0 (dm div 2)" "bres_inv dm dy 0 0 (dm div 2)"
      "bres_inv dm dz 0 0 (dm div 2)"
      using d h by (simp_all add: bres_inv_def)
    from bres_loop_total [OF ok _ inv, of "nat dm" "[]"] dm pos e show ?thesis
      by simp
  qed
  with chk show ?thesis
    unfolding bres_run_def abs_int_def dm_def dx_def dy_def dz_def sx_def sy_def sz_def
    by (simp add: checked_ok Let_def)
qed

subsection \<open>\<^verbatim>\<open>VoxelCastingDDA\<close> reaches the end voxel\<close>

lemma dda_axis_total:
  assumes ok: "axis_ok m d s c0" and inv: "dda_inv m d j k e"
    and j: "0 \<le> j" "j < m" and m: "3 * m \<le> INT_MAX"
  shows "int_ok (e + d) \<and>
         (\<exists>e' k'. dda_axis m s (e + d, c0 + s * k) = Some (e', c0 + s * k') \<and>
            dda_inv m d (j + 1) k' e')"
proof -
  from ok have d: "0 \<le> d" "d \<le> m" and c0: "int_ok c0" "int_ok (c0 + s * d)" and s: "\<bar>s\<bar> = 1"
    by (simp_all add: axis_ok_def)
  from inv have k: "0 \<le> k" "k \<le> d" and eq: "e + k * m = j * d"
    and e: "- m \<le> 2 * e" "2 * e < m"
    by (simp_all add: dda_inv_def)
  from m have m': "3 * m \<le> 2147483647" by (simp add: INT_MAX_def)
  have e1: "- m \<le> 2 * (e + d)" "2 * (e + d) < 3 * m"
    using e d by simp_all
  have ok1: "int_ok (e + d)"
    using e1 m' j by (simp add: int_ok_def INT_MIN_def INT_MAX_def)
  have sh: "shl1 (e + d) = 2 * (e + d)"
    using e1 m' j by (intro shl1_small) simp_all
  have eq1: "(e + d) + k * m = (j + 1) * d"
    using eq by (simp add: algebra_simps)
  have "\<exists>e' k'. dda_axis m s (e + d, c0 + s * k) = Some (e', c0 + s * k') \<and>
          dda_inv m d (j + 1) k' e'"
  proof (cases "m \<le> 2 * (e + d)")
    case True
    let ?e = "e + d - m"
    have e': "- m \<le> 2 * ?e" "2 * ?e < m" using True e1 by simp_all
    have eq': "?e + (k + 1) * m = (j + 1) * d"
      using eq1 by (simp add: algebra_simps)
    have "(j + 1) * d \<le> m * d"
      using j d by (intro mult_right_mono) simp_all
    moreover from eq' have "(k + 1) * m = (j + 1) * d - ?e"
      by simp
    ultimately have "(k + 1) * m \<le> m * d - ?e"
      by simp
    with e' have "2 * ((k + 1) * m) \<le> 2 * (m * d) + m"
      by simp
    moreover have "(2 * (k + 1)) * m = 2 * ((k + 1) * m)" "(2 * d + 1) * m = 2 * (m * d) + m"
      by (simp_all add: algebra_simps)
    ultimately have "(2 * (k + 1)) * m \<le> (2 * d + 1) * m"
      by linarith
    with j have "2 * (k + 1) \<le> 2 * d + 1"
      by (simp add: mult_le_cancel_right)
    then have k': "k + 1 \<le> d" by simp
    have ok2: "int_ok ?e"
      using e' m' j by (simp add: int_ok_def INT_MIN_def INT_MAX_def)
    have c: "c0 + s * k + s = c0 + s * (k + 1)"
      by (simp add: algebra_simps)
    have "int_ok (c0 + s * (k + 1))"
      using between_ok [OF c0 s _ k'] k by simp
    then have ok3: "int_ok (c0 + s * k + s)"
      by (simp only: c)
    have "dda_axis m s (e + d, c0 + s * k) = Some (?e, c0 + s * k + s)"
      using True ok2 ok3 by (simp add: dda_axis_def sh checked_ok)
    then have "dda_axis m s (e + d, c0 + s * k) = Some (?e, c0 + s * (k + 1))"
      by (simp only: c)
    moreover have "dda_inv m d (j + 1) (k + 1) ?e"
      using k k' eq' e' by (simp add: dda_inv_def)
    ultimately show ?thesis by blast
  next
    case False
    have e': "- m \<le> 2 * (e + d)" "2 * (e + d) < m" using False e1 by simp_all
    have "dda_axis m s (e + d, c0 + s * k) = Some (e + d, c0 + s * k)"
      using False by (simp add: dda_axis_def sh)
    moreover have "dda_inv m d (j + 1) k (e + d)"
      using k eq1 e' by (simp add: dda_inv_def)
    ultimately show ?thesis by blast
  qed
  with ok1 show ?thesis by simp
qed

lemma dda_inv_final:
  assumes "dda_inv m d m k e"
  shows "k = d"
proof -
  from assms have eq: "e + k * m = m * d" and e: "- m \<le> 2 * e" "2 * e < m"
    by (simp_all add: dda_inv_def)
  from e have m: "0 < m" by simp
  from eq have *: "(d - k) * m = e"
    by (simp add: algebra_simps)
  show ?thesis
  proof (rule ccontr)
    assume "k \<noteq> d"
    then consider "1 \<le> d - k" | "d - k \<le> - 1" by linarith
    then show False
    proof cases
      case 1
      then have "1 * m \<le> (d - k) * m"
        using m by (intro mult_right_mono) simp_all
      with * e m show False by simp
    next
      case 2
      then have "(d - k) * m \<le> (- 1) * m"
        using m by (intro mult_right_mono) simp_all
      with * e m show False by simp
    qed
  qed
qed

lemma dda_body_total:
  assumes "axis_ok m dx sx ax" "axis_ok m dy sy ay" "axis_ok m dz sz az"
    and "dda_inv m dx j kx e0" "dda_inv m dy j ky e1" "dda_inv m dz j kz e2"
    and "0 \<le> j" "j < m" "3 * m \<le> INT_MAX"
  shows "\<exists>e0' e1' e2' kx' ky' kz'.
           dda_body (dx, dy, dz) (sx, sy, sz) m
             ((ax + sx * kx, ay + sy * ky, az + sz * kz), (e0, e1, e2)) =
             Some ((ax + sx * kx', ay + sy * ky', az + sz * kz'), (e0', e1', e2')) \<and>
           dda_inv m dx (j + 1) kx' e0' \<and> dda_inv m dy (j + 1) ky' e1' \<and>
           dda_inv m dz (j + 1) kz' e2'"
proof -
  from dda_axis_total [OF assms(1,4,7-9)] obtain e0' kx' where
    x: "int_ok (e0 + dx)" "dda_axis m sx (e0 + dx, ax + sx * kx) = Some (e0', ax + sx * kx')"
       "dda_inv m dx (j + 1) kx' e0'" by blast
  from dda_axis_total [OF assms(2,5,7-9)] obtain e1' ky' where
    y: "int_ok (e1 + dy)" "dda_axis m sy (e1 + dy, ay + sy * ky) = Some (e1', ay + sy * ky')"
       "dda_inv m dy (j + 1) ky' e1'" by blast
  from dda_axis_total [OF assms(3,6,7-9)] obtain e2' kz' where
    z: "int_ok (e2 + dz)" "dda_axis m sz (e2 + dz, az + sz * kz) = Some (e2', az + sz * kz')"
       "dda_inv m dz (j + 1) kz' e2'" by blast
  from x y z show ?thesis
    unfolding dda_body_def
    by (intro exI [of _ e0'] exI [of _ e1'] exI [of _ e2'] exI [of _ kx'] exI [of _ ky']
        exI [of _ kz']) (simp add: checked_ok)
qed

lemma dda_loop_total:
  assumes "axis_ok m dx sx ax" "axis_ok m dy sy ay" "axis_ok m dz sz az"
    and "3 * m \<le> INT_MAX"
    and "dda_inv m dx j kx e0" "dda_inv m dy j ky e1" "dda_inv m dz j kz e2"
    and "0 \<le> j" "int i = m - j"
  shows "\<exists>p. dda_loop i (dx, dy, dz) (sx, sy, sz) m
           (ax + sx * kx, ay + sy * ky, az + sz * kz) (e0, e1, e2) vis =
           Some ((ax + sx * dx, ay + sy * dy, az + sz * dz), p)"
  using assms(5-9)
proof (induction i arbitrary: j kx ky kz e0 e1 e2 vis)
  case 0
  then have "j = m" by simp
  with 0 dda_inv_final [of m dx kx e0] dda_inv_final [of m dy ky e1]
    dda_inv_final [of m dz kz e2]
  show ?case by simp
next
  case (Suc i)
  then have j: "0 \<le> j" "j < m" and i: "int i = m - (j + 1)" by simp_all
  from dda_body_total [OF assms(1-3) Suc.prems(1-3) j assms(4)]
  obtain e0' e1' e2' kx' ky' kz' where
    body: "dda_body (dx, dy, dz) (sx, sy, sz) m
             ((ax + sx * kx, ay + sy * ky, az + sz * kz), (e0, e1, e2)) =
             Some ((ax + sx * kx', ay + sy * ky', az + sz * kz'), (e0', e1', e2'))" and
    inv: "dda_inv m dx (j + 1) kx' e0'" "dda_inv m dy (j + 1) ky' e1'"
         "dda_inv m dz (j + 1) kz' e2'"
    by blast
  from Suc.IH [OF inv _ i] j body show ?case
    by simp
qed

lemma abs_delta_ok: "int_ok d \<Longrightarrow> int_ok \<bar>d\<bar> \<Longrightarrow> abs_delta d = Some \<bar>d\<bar>"
  by (auto simp: abs_delta_def abs_if)

lemma dda_run_total:
  assumes "int_ok x0" "int_ok y0" "int_ok z0" "int_ok x1" "int_ok y1" "int_ok z1"
    and "3 * max_abs_delta (x0, y0, z0) (x1, y1, z1) \<le> INT_MAX"
  shows "\<exists>p. dda_run (x0, y0, z0) (x1, y1, z1) = Some ((x1, y1, z1), p)"
proof -
  define dx dy dz where "dx = \<bar>x1 - x0\<bar>" and "dy = \<bar>y1 - y0\<bar>" and "dz = \<bar>z1 - z0\<bar>"
  define m where "m = max dx (max dy dz)"
  define sx :: int where "sx = (if 0 \<le> x1 - x0 then 1 else - 1)"
  define sy :: int where "sy = (if 0 \<le> y1 - y0 then 1 else - 1)"
  define sz :: int where "sz = (if 0 \<le> z1 - z0 then 1 else - 1)"
  from assms(7) have m: "3 * m \<le> INT_MAX"
    by (simp add: max_abs_delta_def m_def dx_def dy_def dz_def)
  have m_alt: "(if dz < (if dy < dx then dx else dy) then (if dy < dx then dx else dy) else dz) = m"
    unfolding m_def by (simp add: max_def)
  have d: "0 \<le> dx" "dx \<le> m" "0 \<le> dy" "dy \<le> m" "0 \<le> dz" "dz \<le> m"
    by (simp_all add: m_def dx_def dy_def dz_def)
  have e: "x0 + sx * dx = x1" "y0 + sy * dy = y1" "z0 + sz * dz = z1"
    by (simp_all add: sx_def sy_def sz_def dx_def dy_def dz_def)
  have ok: "axis_ok m dx sx x0" "axis_ok m dy sy y0" "axis_ok m dz sz z0"
    using assms(1-6) d e by (simp_all add: axis_ok_def) (simp_all add: sx_def sy_def sz_def)
  have chk: "int_ok (x1 - x0)" "int_ok (y1 - y0)" "int_ok (z1 - z0)"
    "int_ok dx" "int_ok dy" "int_ok dz" "int_ok (m + 1)"
    using d m by (auto simp: int_ok_def INT_MIN_def INT_MAX_def dx_def dy_def dz_def)
  have ad: "abs_delta (x1 - x0) = Some dx" "abs_delta (y1 - y0) = Some dy"
    "abs_delta (z1 - z0) = Some dz"
    using chk by (simp_all add: abs_delta_ok dx_def dy_def dz_def)
  have "\<exists>p. dda_loop (nat m) (dx, dy, dz) (sx, sy, sz) m (x0, y0, z0) (0, 0, 0) [] =
          Some ((x1, y1, z1), p)"
  proof (cases "m = 0")
    case True
    with d have "dx = 0" "dy = 0" "dz = 0" by simp_all
    with e True show ?thesis by simp
  next
    case False
    with d have pos: "0 < m" by simp
    have inv: "dda_inv m dx 0 0 0" "dda_inv m dy 0 0 0" "dda_inv m dz 0 0 0"
      using d pos by (simp_all add: dda_inv_def)
    from dda_loop_total [OF ok m inv, of "nat m" "[]"] pos e show ?thesis
      by simp
  qed
  with chk ad show ?thesis
    unfolding dda_run_def sx_def sy_def sz_def
    by (auto simp: checked_ok Let_def m_alt)
qed

subsection \<open>The voxel index and the conversions\<close>

lemma isnan_int_False [simp]: "\<not> isnan_int n"
  by (simp add: isnan_int_def isnan_def double_of_int_def)

lemma index_of_Some:
  assumes "index_of p st = Some a"
  shows "floorf (fdiv p st) = Fin (of_int a)"
  using assms by (auto simp: index_of_def split: float.splits)

lemma int_of_float_of_int: "int_of_float (Fin (of_int a)) = checked a"
  by simp

lemma round_away_of_int: "round_away (of_int a) = a"
  by (simp add: round_away_def) linarith

lemma int_ok_long_ok: "int_ok a \<Longrightarrow> long_ok a"
  by (simp add: int_ok_def long_ok_def INT_MIN_def INT_MAX_def)

lemma voxel_lround_index:
  assumes "index_of p st = Some a" and "int_ok a"
  shows "voxel_lround u p st = a"
  using assms
  by (simp add: voxel_lround_def index_of_Some round_away_of_int int_ok_long_ok int_of_long_id)

lemma int_of_float_index:
  assumes "index_of p st = Some a" and "int_ok a"
  shows "int_of_float (floorf (fdiv p st)) = Some a"
  using assms by (simp add: index_of_Some checked_ok del: int_of_float.simps add: int_of_float_of_int)

lemma VoxelIndex_Some:
  assumes "VoxelIndex (px, py, pz) st = Some (x, y, z)"
  shows "index_of px st = Some x" "index_of py st = Some y" "index_of pz st = Some z"
  using assms by (auto simp: VoxelIndex_def bind_eq_Some_conv)

lemma voxel_of_floats_index:
  assumes "VoxelIndex p st = Some a" and "voxel_ok a"
  shows "voxel_of_floats p st = Some a"
proof -
  obtain px py pz where p: "p = (px, py, pz)" by (cases p) auto
  obtain x y z where a: "a = (x, y, z)" by (cases a) auto
  from assms VoxelIndex_Some [of px py pz st x y z] show ?thesis
    by (simp add: p a voxel_ok_def voxel_of_floats_def int_of_float_index)
qed

lemma lround_index_index:
  assumes "VoxelIndex p st = Some a" and "voxel_ok a"
  shows "lround_index u p st = a"
proof -
  obtain px py pz where p: "p = (px, py, pz)" by (cases p) auto
  obtain x y z where a: "a = (x, y, z)" by (cases a) auto
  from assms VoxelIndex_Some [of px py pz st x y z] show ?thesis
    by (simp add: p a voxel_ok_def lround_index_def voxel_lround_index)
qed

lemma voxel_ok_lround_index: "voxel_ok (lround_index u p st)"
  by (cases p) (simp add: lround_index_def voxel_ok_def voxel_lround_def int_ok_int_of_long)

lemma VoxelCastingBresenham_eq:
  "VoxelCastingBresenham u s e st =
     (case bres_run (lround_index u s st) (lround_index u e st) of
        None \<Rightarrow> Inl UndefinedBehaviour
      | Some (fin, vis) \<Rightarrow> if fin = lround_index u e st then Inr vis else Inl CheckFailed)"
  by (cases s; cases e)
    (simp add: VoxelCastingBresenham_def lround_index_def Let_def split: option.splits)

lemma VoxelCastingDDA_eq:
  "VoxelCastingDDA u s e st =
     (case dda_run (lround_index u s st) (lround_index u e st) of
        None \<Rightarrow> Inl UndefinedBehaviour
      | Some (fin, vis) \<Rightarrow> if fin = lround_index u e st then Inr vis else Inl CheckFailed)"
  by (cases s; cases e)
    (simp add: VoxelCastingDDA_def lround_index_def Let_def split: option.splits)

lemma VoxelCastingBresenham_path:
  assumes "VoxelCastingBresenham u s e st = Inr p"
  shows "\<exists>q. p = lround_index u s st # q \<and>
           int (length q) = max_abs_delta (lround_index u s st) (lround_index u e st) \<and>
           last p = lround_index u e st \<and> successively moved p"
proof -
  from assms obtain fin where
    "bres_run (lround_index u s st) (lround_index u e st) = Some (fin, p)"
    "fin = lround_index u e st"
    by (auto simp: VoxelCastingBresenham_eq split: option.splits if_splits)
  with bres_run_path [of "lround_index u s st" "lround_index u e st" fin p]
  show ?thesis by auto
qed

lemma VoxelCastingDDA_path:
  assumes "VoxelCastingDDA u s e st = Inr p"
  shows "\<exists>q. p = lround_index u s st # q \<and>
           int (length q) = max_abs_delta (lround_index u s st) (lround_index u e st) \<and>
           last p = lround_index u e st \<and> successively moved p"
proof -
  from assms obtain fin where
    "dda_run (lround_index u s st) (lround_index u e st) = Some (fin, p)"
    "fin = lround_index u e st"
    by (auto simp: VoxelCastingDDA_eq split: option.splits if_splits)
  with dda_run_path [of "lround_index u s st" "lround_index u e st" fin p]
  show ?thesis by auto
qed

lemma VoxelCastingBresenham_total:
  assumes "max_abs_delta (lround_index u s st) (lround_index u e st) < INT_MAX"
  shows "\<exists>p. VoxelCastingBresenham u s e st = Inr p"
proof -
  obtain x0 y0 z0 where a: "lround_index u s st = (x0, y0, z0)"
    by (cases "lround_index u s st") auto
  obtain x1 y1 z1 where b: "lround_index u e st = (x1, y1, z1)"
    by (cases "lround_index u e st") auto
  from voxel_ok_lround_index [of u s st] voxel_ok_lround_index [of u e st]
  have "int_ok x0" "int_ok y0" "int_ok z0" "int_ok x1" "int_ok y1" "int_ok z1"
    by (simp_all add: a b voxel_ok_def)
  from bres_run_total [OF this] assms show ?thesis
    by (auto simp: VoxelCastingBresenham_eq a b)
qed

lemma VoxelCastingDDA_total:
  assumes "3 * max_abs_delta (lround_index u s st) (lround_index u e st) \<le> INT_MAX"
  shows "\<exists>p. VoxelCastingDDA u s e st = Inr p"
proof -
  obtain x0 y0 z0 where a: "lround_index u s st = (x0, y0, z0)"
    by (cases "lround_index u s st") auto
  obtain x1 y1 z1 where b: "lround_index u e st = (x1, y1, z1)"
    by (cases "lround_index u e st") auto
  from voxel_ok_lround_index [of u s st] voxel_ok_lround_index [of u e st]
  have "int_ok x0" "int_ok y0" "int_ok z0" "int_ok x1" "int_ok y1" "int_ok z1"
    by (simp_all add: a b voxel_ok_def)
  from dda_run_total [OF this] assms show ?thesis
    by (auto simp: VoxelCastingDDA_eq a b)
qed

subsection \<open>A ray on which \<^verbatim>\<open>VoxelCasting\<close> overshoots\<close>

lemma cast_step_down:
  assumes "cast_step (1, - 1, 1) td ((cx, cy, cz), t) = Some ((cx', cy', cz'), t')"
  shows "cx \<le> cx' \<and> cx' \<le> cx + 1 \<and> cy - 1 \<le> cy' \<and> cy' \<le> cy \<and> cz \<le> cz' \<and> cz' \<le> cz + 1"
proof -
  obtain tx ty tz where t: "t = (tx, ty, tz)" by (cases t) auto
  obtain dx dy dz where td: "td = (dx, dy, dz)" by (cases td) auto
  from assms show ?thesis
    unfolding t td cast_step_def
    by (auto split: if_splits simp: bind_eq_Some_conv)
qed

lemma cast_step_defined:
  assumes "int_ok (cx + 1)" "int_ok (cy - 1)" "int_ok (cz + 1)"
  shows "cast_step (1, - 1, 1) td ((cx, cy, cz), t) \<noteq> None"
proof -
  obtain tx ty tz where t: "t = (tx, ty, tz)" by (cases t) auto
  obtain dx dy dz where td: "td = (dx, dy, dz)" by (cases td) auto
  from assms show ?thesis
    unfolding t td cast_step_def
    by (simp add: checked_ok)
qed

lemma cast_loop_overshoot:
  assumes "cy \<le> - 2"
  shows "cast_loop k (1, - 1, 0) (1, - 1, 1) td (cx, cy, cz) t vis \<noteq> Some (Inr p)"
  using assms
proof (induction k arbitrary: cx cy cz t vis)
  case 0
  then show ?case
    by (subst cast_loop.simps) simp
next
  case (Suc k)
  show ?case
  proof (cases "cast_step (1, - 1, 1) td ((cx, cy, cz), t)")
    case None
    with Suc.prems show ?thesis
      by (subst cast_loop.simps) simp
  next
    case (Some r)
    obtain cx' cy' cz' t' where r: "r = ((cx', cy', cz'), t')"
      by (cases r) auto
    from cast_step_down [OF Some [unfolded r]] Suc.prems have "cy' \<le> - 2" by simp
    from Suc.IH [OF this] Some r Suc.prems show ?thesis
      by (subst cast_loop.simps) simp
  qed
qed

lemma cast_loop_running:
  assumes "cy \<le> - 2" "INT_MIN \<le> cy - int k"
    and "INT_MIN \<le> cx" "cx + int k \<le> INT_MAX" "INT_MIN \<le> cz" "cz + int k \<le> INT_MAX"
  shows "cast_loop k (1, - 1, 0) (1, - 1, 1) td (cx, cy, cz) t vis = None"
  using assms
proof (induction k arbitrary: cx cy cz t vis)
  case 0
  then show ?case
    by (subst cast_loop.simps) simp
next
  case (Suc k)
  then have "int_ok (cx + 1)" "int_ok (cy - 1)" "int_ok (cz + 1)"
    by (simp_all add: int_ok_def INT_MAX_def INT_MIN_def)
  from cast_step_defined [OF this] obtain r where
    st: "cast_step (1, - 1, 1) td ((cx, cy, cz), t) = Some r"
    by blast
  obtain cx' cy' cz' t' where r: "r = ((cx', cy', cz'), t')"
    by (cases r) auto
  from cast_step_down [OF st [unfolded r]] Suc.prems
  have "cy' \<le> - 2" "INT_MIN \<le> cy' - int k" "INT_MIN \<le> cx'" "cx' + int k \<le> INT_MAX"
    "INT_MIN \<le> cz'" "cz' + int k \<le> INT_MAX"
    by simp_all
  from Suc.IH [OF this] st r Suc.prems(1) show ?case
    by (subst cast_loop.simps) simp
qed

lemma overshoot_voxels:
  "voxel_of_floats (Fin 0, Fin 0, Fin 0) (Fin 1) = Some (0, 0, 0)"
  "voxel_of_floats (Fin 1, Fin (- 1), Fin 0) (Fin 1) = Some (1, - 1, 0)"
  by code_simp+

lemma overshoot_init:
  "cast_init (Fin 0, Fin 0, Fin 0) (Fin 1, Fin (- 1), Fin 0) (Fin 1) (0, 0, 0) (1, - 1, 0) =
     Some ((1, - 1, 1), (Fin 1, Fin 1, Fin FLT_MAX), (0, - 1, 0), (Fin 1, Fin 1, Fin FLT_MAX),
           [(0, 0, 0), (0, - 1, 0)])"
  by code_simp

lemma overshoot_first_pass:
  "cast_step (1, - 1, 1) (Fin 1, Fin 1, Fin FLT_MAX) ((0, - 1, 0), (Fin 1, Fin 1, Fin FLT_MAX)) =
     Some ((0, - 2, 0), (Fin 1, Fin 2, Fin FLT_MAX))"
  by code_simp

lemma overshoot_loop:
  "VoxelCasting n (Fin 0, Fin 0, Fin 0) (Fin 1, Fin (- 1), Fin 0) (Fin 1) =
     (case n of 0 \<Rightarrow> None
      | Suc k \<Rightarrow> cast_loop k (1, - 1, 0) (1, - 1, 1) (Fin 1, Fin 1, Fin FLT_MAX) (0, - 2, 0)
          (Fin 1, Fin 2, Fin FLT_MAX) [(0, 0, 0), (0, - 1, 0), (0, - 2, 0)])"
  unfolding VoxelCasting_def overshoot_voxels
  by (simp add: overshoot_init overshoot_first_pass cast_loop.simps [of n] split: nat.splits)

subsection \<open>More on the conversions and the degenerate runs\<close>

lemma moved_distinct_adj: "successively moved p \<Longrightarrow> distinct_adj p"
  unfolding distinct_adj_def by (erule successively_mono) (simp add: moved_def)

lemma moved_unit_step: "successively moved p \<Longrightarrow> successively unit_step p"
  by (erule successively_mono) (simp add: moved_def)




lemma bres_run_same: "bres_run a a = Some (a, [a])"
  by (cases a) (simp add: bres_run_def abs_int_def checked_ok int_ok_def INT_MIN_def INT_MAX_def)

lemma dda_run_same: "dda_run a a = Some (a, [a])"
  by (cases a)
    (simp add: dda_run_def abs_delta_def checked_ok int_ok_def INT_MIN_def INT_MAX_def)


text \<open>
  Without overflow the \<^verbatim>\<open>CHECK_EQ\<close> of \<^verbatim>\<open>VoxelCastingBresenham\<close> cannot fail.
\<close>

lemma bres_run_Some_bound:
  assumes "bres_run a b = Some r"
  shows "max_abs_delta a b < INT_MAX"
proof -
  obtain x0 y0 z0 where a: "a = (x0, y0, z0)" by (cases a) auto
  obtain x1 y1 z1 where b: "b = (x1, y1, z1)" by (cases b) auto
  from assms have "int_ok (max \<bar>x1 - x0\<bar> (max \<bar>y1 - y0\<bar> \<bar>z1 - z0\<bar>) + 1)"
    unfolding a b bres_run_def abs_int_def
    by (auto simp: bind_eq_Some_conv Let_def)
  then have "max \<bar>x1 - x0\<bar> (max \<bar>y1 - y0\<bar> \<bar>z1 - z0\<bar>) < INT_MAX"
    unfolding int_ok_def by linarith
  then show ?thesis
    by (simp only: a b max_abs_delta_def prod.case)
qed

lemma VoxelCastingBresenham_check:
  "VoxelCastingBresenham u ray_start ray_end step_size \<noteq> Inl CheckFailed"
proof
  assume f: "VoxelCastingBresenham u ray_start ray_end step_size = Inl CheckFailed"
  then obtain r where "bres_run (lround_index u ray_start step_size)
      (lround_index u ray_end step_size) = Some r"
    by (auto simp: VoxelCastingBresenham_eq split: option.splits)
  from bres_run_Some_bound [OF this]
  obtain p where "VoxelCastingBresenham u ray_start ray_end step_size = Inr p"
    using VoxelCastingBresenham_total by blast
  with f show False by simp
qed

subsection \<open>Sample runs\<close>

lemma round32_examples:
  "round32 (1 / 3) = Fin (11184811 / 33554432)"
  "round32 (1 / 10) = Fin (13421773 / 134217728)"
  "round32 16777217 = Fin 16777216"
  "round32 16777219 = Fin 16777220"
  "round32 (3 / 2 ^ 150) = Fin (1 / 2 ^ 148)"
  "round32 (1 / 2 ^ 150) = Fin 0"
  "round32 (2 ^ 128 - 2 ^ 103) = PInf"
  "round32 (- (2 ^ 128 - 2 ^ 103) + 1) = Fin (- FLT_MAX)"
  by code_simp+

lemma sample_casting:
  "VoxelCasting 3 (Fin 0, Fin 0, Fin 0) (Fin (- 3), Fin 0, Fin 0) (Fin 1) =
     Some (Inr [(0, 0, 0), (- 1, 0, 0), (- 2, 0, 0), (- 3, 0, 0)])"
  by code_simp

lemma sample_bresenham:
  "VoxelCastingBresenham lround_x86_64 (Fin 0, Fin 0, Fin 0) (Fin 7, Fin (- 3), Fin 2) (Fin 1) =
     Inr [(0, 0, 0), (1, 0, 0), (2, - 1, 1), (3, - 1, 1), (4, - 2, 1), (5, - 2, 1), (6, - 3, 2),
          (7, - 3, 2)]"
  by code_simp

lemma sample_dda:
  "VoxelCastingDDA lround_x86_64 (Fin 0, Fin 0, Fin 0) (Fin 7, Fin (- 3), Fin 2) (Fin 1) =
     Inr [(0, 0, 0), (1, 0, 0), (2, - 1, 1), (3, - 1, 1), (4, - 2, 1), (5, - 2, 1), (6, - 3, 2),
          (7, - 3, 2)]"
  by code_simp

lemma sample_index:
  "lround_index lround_x86_64 (Fin 0, Fin 0, Fin 0) (Fin 1) = (0, 0, 0)"
  "lround_index lround_x86_64 (Fin 7, Fin (- 3), Fin 2) (Fin 1) = (7, - 3, 2)"
  "VoxelIndex (Fin 0, Fin 0, Fin 0) (Fin 1) = Some (0, 0, 0)"
  "VoxelIndex (Fin 7, Fin (- 3), Fin 2) (Fin 1) = Some (7, - 3, 2)"
  "voxel_ok (0, 0, 0)" "voxel_ok (7, - 3, 2)"
  "max_abs_delta (0, 0, 0) (7, - 3, 2) = 7"
  by code_simp+

section \<open>The claims\<close>

subsection \<open>C1: the first and the last voxel\<close>




subsection \<open>C2: the final index and the assertion\<close>




subsection \<open>C3: the NaN guard\<close>

text \<open>
  Claim C3 (the code misses it). Both integer traversals test \<^verbatim>\<open>std::isnan\<close> on the
  \<^verbatim>\<open>int\<close> indices, after \<^verbatim>\<open>std::lround\<close> and the conversion to \<^verbatim>\<open>int\<close>: the test is never
  true, so neither function ever returns the empty path, whatever \<^verbatim>\<open>std::lround\<close>
  answers for NaN. With glibc's answer on x86-64 a NaN in \<^verbatim>\<open>ray_start\<close> is read as the
  index 0, and the ray from (NaN, 0, 0) to (0, 0, 0) yields the path (0, 0, 0).
\<close>

theorem nan_guard_never_fires:
  "VoxelCastingBresenham u ray_start ray_end step_size \<noteq> Inr [] \<and>
   VoxelCastingDDA u ray_start ray_end step_size \<noteq> Inr [] \<and>
   VoxelCastingBresenham lround_x86_64 (NaN, Fin 0, Fin 0) (Fin 0, Fin 0, Fin 0) (Fin 1) =
     Inr [(0, 0, 0)] \<and>
   VoxelCastingDDA lround_x86_64 (NaN, Fin 0, Fin 0) (Fin 0, Fin 0, Fin 0) (Fin 1) =
     Inr [(0, 0, 0)]"
proof -
  have "VoxelCastingBresenham u ray_start ray_end step_size \<noteq> Inr []"
    using VoxelCastingBresenham_path [of u ray_start ray_end step_size "[]"] by auto
  moreover have "VoxelCastingDDA u ray_start ray_end step_size \<noteq> Inr []"
    using VoxelCastingDDA_path [of u ray_start ray_end step_size "[]"] by auto
  moreover have
    "VoxelCastingBresenham lround_x86_64 (NaN, Fin 0, Fin 0) (Fin 0, Fin 0, Fin 0) (Fin 1) =
       Inr [(0, 0, 0)]"
    "VoxelCastingDDA lround_x86_64 (NaN, Fin 0, Fin 0) (Fin 0, Fin 0, Fin 0) (Fin 1) =
       Inr [(0, 0, 0)]"
    by code_simp+
  ultimately show ?thesis by simp
qed

subsection \<open>C4: the length of the path\<close>

text \<open>
  Claim C4, as amended. When the voxel indices of both endpoints fit \<^verbatim>\<open>int\<close> and their
  largest per-axis difference is below \<open>INT_MAX\<close>, \<^verbatim>\<open>VoxelCastingBresenham\<close> returns a
  path of exactly that difference plus one voxels; \<^verbatim>\<open>VoxelCastingDDA\<close> does so when three
  times the largest difference is at most \<open>INT_MAX\<close>.
\<close>

theorem integer_traversal_length:
  assumes "VoxelIndex ray_start step_size = Some a" and "voxel_ok a"
    and "VoxelIndex ray_end step_size = Some b" and "voxel_ok b"
  shows "(max_abs_delta a b < INT_MAX \<longrightarrow>
           (\<exists>p. VoxelCastingBresenham u ray_start ray_end step_size = Inr p \<and>
              int (length p) = max_abs_delta a b + 1)) \<and>
         (3 * max_abs_delta a b \<le> INT_MAX \<longrightarrow>
           (\<exists>p. VoxelCastingDDA u ray_start ray_end step_size = Inr p \<and>
              int (length p) = max_abs_delta a b + 1))"
proof -
  from assms have ab: "lround_index u ray_start step_size = a"
    "lround_index u ray_end step_size = b"
    by (simp_all add: lround_index_index)
  have 1: "\<exists>p. VoxelCastingBresenham u ray_start ray_end step_size = Inr p \<and>
      int (length p) = max_abs_delta a b + 1"
    if "max_abs_delta a b < INT_MAX"
  proof -
    from VoxelCastingBresenham_total [of u ray_start step_size ray_end] that ab obtain p where
      p: "VoxelCastingBresenham u ray_start ray_end step_size = Inr p" by auto
    from VoxelCastingBresenham_path [OF p] ab have "int (length p) = max_abs_delta a b + 1"
      by auto
    with p show ?thesis by blast
  qed
  have 2: "\<exists>p. VoxelCastingDDA u ray_start ray_end step_size = Inr p \<and>
      int (length p) = max_abs_delta a b + 1"
    if "3 * max_abs_delta a b \<le> INT_MAX"
  proof -
    from VoxelCastingDDA_total [of u ray_start step_size ray_end] that ab obtain p where
      p: "VoxelCastingDDA u ray_start ray_end step_size = Inr p" by auto
    from VoxelCastingDDA_path [OF p] ab have "int (length p) = max_abs_delta a b + 1"
      by auto
    with p show ?thesis by blast
  qed
  from 1 2 show ?thesis by blast
qed

theorem integer_traversal_length_witness:
  "VoxelIndex (Fin 0, Fin 0, Fin 0) (Fin 1) = Some (0, 0, 0) \<and> voxel_ok (0, 0, 0) \<and>
   VoxelIndex (Fin 7, Fin (- 3), Fin 2) (Fin 1) = Some (7, - 3, 2) \<and> voxel_ok (7, - 3, 2) \<and>
   max_abs_delta (0, 0, 0) (7, - 3, 2) < INT_MAX \<and>
   3 * max_abs_delta (0, 0, 0) (7, - 3, 2) \<le> INT_MAX \<and>
   (\<exists>p. VoxelCastingBresenham lround_x86_64 (Fin 0, Fin 0, Fin 0) (Fin 7, Fin (- 3), Fin 2)
      (Fin 1) = Inr p \<and> int (length p) = 8) \<and>
   (\<exists>p. VoxelCastingDDA lround_x86_64 (Fin 0, Fin 0, Fin 0) (Fin 7, Fin (- 3), Fin 2)
      (Fin 1) = Inr p \<and> int (length p) = 8)"
proof -
  have h: "max_abs_delta (0, 0, 0) (7, - 3, 2) < INT_MAX"
    "3 * max_abs_delta (0, 0, 0) (7, - 3, 2) \<le> INT_MAX"
    by (simp_all add: sample_index INT_MAX_def)
  note t = integer_traversal_length [OF sample_index(3,5,4,6), where u = lround_x86_64]
  from t h sample_index show ?thesis
    by simp
qed

text \<open>
  The claim as stated fails where an index does not fit \<^verbatim>\<open>int\<close>: the end index
  8589934592 is reduced to 0, and both functions return a single voxel for a ray that
  spans 8589934592 voxels.
\<close>

theorem integer_traversal_length_counterexample:
  "VoxelIndex (Fin 0, Fin 0, Fin 0) (Fin 1) = Some (0, 0, 0) \<and>
   VoxelIndex (Fin 8589934592, Fin 0, Fin 0) (Fin 1) = Some (8589934592, 0, 0) \<and>
   VoxelCastingBresenham lround_x86_64 (Fin 0, Fin 0, Fin 0) (Fin 8589934592, Fin 0, Fin 0)
     (Fin 1) = Inr [(0, 0, 0)] \<and>
   VoxelCastingDDA lround_x86_64 (Fin 0, Fin 0, Fin 0) (Fin 8589934592, Fin 0, Fin 0)
     (Fin 1) = Inr [(0, 0, 0)] \<and>
   int (length [(0, 0, 0) :: Vector3i]) \<noteq> max_abs_delta (0, 0, 0) (8589934592, 0, 0) + 1"
  by code_simp

subsection \<open>C5: the zero-length ray\<close>

text \<open>
  Claim C5, as amended. For a zero-length ray whose voxel index fits \<^verbatim>\<open>int\<close> on every
  axis, each of the three functions returns the path of exactly that one voxel
  (\<^verbatim>\<open>VoxelCasting\<close> before its loop, with any fuel).
\<close>

theorem zero_length_ray:
  assumes "VoxelIndex ray_start step_size = Some a" and "voxel_ok a"
  shows "VoxelCasting n ray_start ray_start step_size = Some (Inr [a]) \<and>
         VoxelCastingBresenham u ray_start ray_start step_size = Inr [a] \<and>
         VoxelCastingDDA u ray_start ray_start step_size = Inr [a]"
proof -
  from assms have "voxel_of_floats ray_start step_size = Some a"
    by (rule voxel_of_floats_index)
  then have "VoxelCasting n ray_start ray_start step_size = Some (Inr [a])"
    by (simp add: VoxelCasting_def)
  moreover from assms have "lround_index u ray_start step_size = a"
    by (rule lround_index_index)
  then have "VoxelCastingBresenham u ray_start ray_start step_size = Inr [a]"
    "VoxelCastingDDA u ray_start ray_start step_size = Inr [a]"
    by (simp_all add: VoxelCastingBresenham_eq VoxelCastingDDA_eq bres_run_same dda_run_same)
  ultimately show ?thesis by simp
qed

theorem zero_length_ray_witness:
  "VoxelIndex (Fin (1 / 2), Fin (1 / 2), Fin (1 / 2)) (Fin 1) = Some (0, 0, 0) \<and>
   voxel_ok (0, 0, 0) \<and>
   VoxelCasting 0 (Fin (1 / 2), Fin (1 / 2), Fin (1 / 2)) (Fin (1 / 2), Fin (1 / 2), Fin (1 / 2))
     (Fin 1) = Some (Inr [(0, 0, 0)]) \<and>
   VoxelCastingBresenham lround_x86_64 (Fin (1 / 2), Fin (1 / 2), Fin (1 / 2))
     (Fin (1 / 2), Fin (1 / 2), Fin (1 / 2)) (Fin 1) = Inr [(0, 0, 0)] \<and>
   VoxelCastingDDA lround_x86_64 (Fin (1 / 2), Fin (1 / 2), Fin (1 / 2))
     (Fin (1 / 2), Fin (1 / 2), Fin (1 / 2)) (Fin 1) = Inr [(0, 0, 0)]"
proof -
  have h: "VoxelIndex (Fin (1 / 2), Fin (1 / 2), Fin (1 / 2)) (Fin 1) = Some (0, 0, 0)"
    "voxel_ok (0, 0, 0)"
    by code_simp+
  from zero_length_ray [OF h, of 0 lround_x86_64] h show ?thesis
    by simp
qed

text \<open>
  The claim as stated fails where the index does not fit \<^verbatim>\<open>int\<close>: at the point
  (10000000000, 0, 0) the conversion in \<^verbatim>\<open>VoxelCasting\<close> is undefined, and the two
  integer traversals return the voxel (1410065408, 0, 0), the low 32 bits of the index.
\<close>

theorem zero_length_ray_counterexample:
  "VoxelIndex (Fin 10000000000, Fin 0, Fin 0) (Fin 1) = Some (10000000000, 0, 0) \<and>
   VoxelCasting 1 (Fin 10000000000, Fin 0, Fin 0) (Fin 10000000000, Fin 0, Fin 0) (Fin 1) =
     Some (Inl UndefinedBehaviour) \<and>
   VoxelCastingBresenham lround_x86_64 (Fin 10000000000, Fin 0, Fin 0)
     (Fin 10000000000, Fin 0, Fin 0) (Fin 1) = Inr [(1410065408, 0, 0)] \<and>
   VoxelCastingDDA lround_x86_64 (Fin 10000000000, Fin 0, Fin 0)
     (Fin 10000000000, Fin 0, Fin 0) (Fin 1) = Inr [(1410065408, 0, 0)]"
  by code_simp

subsection \<open>C6: a ray on which \<^verbatim>\<open>VoxelCasting\<close> does not terminate\<close>

text \<open>
  Claim C6. On the ray from (0, 0, 0) to (1, -1, 0) with voxel edge 1 the main loop of
  \<^verbatim>\<open>VoxelCasting\<close> never reaches the end voxel. The pre-loop correction moves the
  current voxel to (0, -1, 0), and both \<^verbatim>\<open>tMaxX\<close> and \<^verbatim>\<open>tMaxY\<close> are 1: the tie goes to
  the y axis, which is already at its end index, so y goes to -2 and only ever
  decreases. The loop is still running after any number of passes up to 2147483647, and
  no number of passes returns a path.
\<close>

theorem VoxelCasting_overshoot:
  "(n \<le> 2147483647 \<longrightarrow>
      VoxelCasting n (Fin 0, Fin 0, Fin 0) (Fin 1, Fin (- 1), Fin 0) (Fin 1) = None) \<and>
   VoxelCasting n (Fin 0, Fin 0, Fin 0) (Fin 1, Fin (- 1), Fin 0) (Fin 1) \<noteq> Some (Inr p)"
proof (cases n)
  case 0
  then show ?thesis by (simp add: overshoot_loop)
next
  case (Suc k)
  have "cast_loop k (1, - 1, 0) (1, - 1, 1) (Fin 1, Fin 1, Fin FLT_MAX) (0, - 2, 0)
          (Fin 1, Fin 2, Fin FLT_MAX) [(0, 0, 0), (0, - 1, 0), (0, - 2, 0)] \<noteq> Some (Inr p)"
    by (rule cast_loop_overshoot) simp
  moreover have "cast_loop k (1, - 1, 0) (1, - 1, 1) (Fin 1, Fin 1, Fin FLT_MAX) (0, - 2, 0)
          (Fin 1, Fin 2, Fin FLT_MAX) [(0, 0, 0), (0, - 1, 0), (0, - 2, 0)] = None"
    if "n \<le> 2147483647"
    using that Suc by (intro cast_loop_running) (simp_all add: INT_MIN_def INT_MAX_def)
  ultimately show ?thesis
    using Suc by (simp add: overshoot_loop)
qed

theorem VoxelCasting_overshoot_witness:
  "(5 :: nat) \<le> 2147483647 \<and>
   VoxelCasting 5 (Fin 0, Fin 0, Fin 0) (Fin 1, Fin (- 1), Fin 0) (Fin 1) = None"
  using VoxelCasting_overshoot [of 5] by simp

subsection \<open>C7: scenario A\<close>

text \<open>
  Claim C7. On the ray from (0, 0, 0) to (3, 0, 0) with voxel edge 1 each of the three
  functions returns the path (0, 0, 0), (1, 0, 0), (2, 0, 0), (3, 0, 0);
  \<^verbatim>\<open>VoxelCasting\<close> leaves its loop after three passes.
\<close>

theorem scenario_A:
  "VoxelCasting 3 (Fin 0, Fin 0, Fin 0) (Fin 3, Fin 0, Fin 0) (Fin 1) =
     Some (Inr [(0, 0, 0), (1, 0, 0), (2, 0, 0), (3, 0, 0)]) \<and>
   VoxelCastingBresenham u (Fin 0, Fin 0, Fin 0) (Fin 3, Fin 0, Fin 0) (Fin 1) =
     Inr [(0, 0, 0), (1, 0, 0), (2, 0, 0), (3, 0, 0)] \<and>
   VoxelCastingDDA u (Fin 0, Fin 0, Fin 0) (Fin 3, Fin 0, Fin 0) (Fin 1) =
     Inr [(0, 0, 0), (1, 0, 0), (2, 0, 0), (3, 0, 0)]"
  by code_simp

subsection \<open>C8: no voxel twice in a row\<close>

text \<open>
  Claim C8. Whenever one of the three functions returns a path, no two consecutive
  elements of the path are equal.
\<close>

theorem no_repeated_voxel:
  "(VoxelCasting n ray_start ray_end step_size = Some (Inr p1) \<longrightarrow> distinct_adj p1) \<and>
   (VoxelCastingBresenham u ray_start ray_end step_size = Inr p2 \<longrightarrow> distinct_adj p2) \<and>
   (VoxelCastingDDA u ray_start ray_end step_size = Inr p3 \<longrightarrow> distinct_adj p3)"
proof -
  have "distinct_adj p1" if "VoxelCasting n ray_start ray_end step_size = Some (Inr p1)"
    using VoxelCasting_path [OF that] by (auto intro: moved_distinct_adj)
  moreover have "distinct_adj p2"
    if "VoxelCastingBresenham u ray_start ray_end step_size = Inr p2"
    using VoxelCastingBresenham_path [OF that] by (auto intro: moved_distinct_adj)
  moreover have "distinct_adj p3"
    if "VoxelCastingDDA u ray_start ray_end step_size = Inr p3"
    using VoxelCastingDDA_path [OF that] by (auto intro: moved_distinct_adj)
  ultimately show ?thesis by blast
qed

theorem no_repeated_voxel_witness:
  "VoxelCasting 3 (Fin 0, Fin 0, Fin 0) (Fin (- 3), Fin 0, Fin 0) (Fin 1) =
     Some (Inr [(0, 0, 0), (- 1, 0, 0), (- 2, 0, 0), (- 3, 0, 0)]) \<and>
   distinct_adj [(0, 0, 0), (- 1, 0, 0), (- 2, 0, 0), (- 3, 0, 0) :: Vector3i] \<and>
   VoxelCastingBresenham lround_x86_64 (Fin 0, Fin 0, Fin 0) (Fin 7, Fin (- 3), Fin 2) (Fin 1) =
     Inr [(0, 0, 0), (1, 0, 0), (2, - 1, 1), (3, - 1, 1), (4, - 2, 1), (5, - 2, 1), (6, - 3, 2),
          (7, - 3, 2)] \<and>
   distinct_adj [(0, 0, 0), (1, 0, 0), (2, - 1, 1), (3, - 1, 1), (4, - 2, 1), (5, - 2, 1),
     (6, - 3, 2), (7, - 3, 2) :: Vector3i]"
proof -
  note t1 = no_repeated_voxel [where n = 3 and ray_start = "(Fin 0, Fin 0, Fin 0)"
      and ray_end = "(Fin (- 3), Fin 0, Fin 0)" and step_size = "Fin 1"
      and ?p1.0 = "[(0, 0, 0), (- 1, 0, 0), (- 2, 0, 0), (- 3, 0, 0)]"]
  note t2 = no_repeated_voxel [where u = lround_x86_64 and ray_start = "(Fin 0, Fin 0, Fin 0)"
      and ray_end = "(Fin 7, Fin (- 3), Fin 2)" and step_size = "Fin 1"
      and ?p2.0 = "[(0, 0, 0), (1, 0, 0), (2, - 1, 1), (3, - 1, 1), (4, - 2, 1), (5, - 2, 1),
        (6, - 3, 2), (7, - 3, 2)]"]
  from t1 sample_casting
  have "distinct_adj [(0, 0, 0), (- 1, 0, 0), (- 2, 0, 0), (- 3, 0, 0) :: Vector3i]"
    by blast
  moreover from t2 sample_bresenham
  have "distinct_adj [(0, 0, 0), (1, 0, 0), (2, - 1, 1), (3, - 1, 1), (4, - 2, 1), (5, - 2, 1),
     (6, - 3, 2), (7, - 3, 2) :: Vector3i]"
    by blast
  ultimately show ?thesis
    using sample_casting sample_bresenham by blast
qed

subsection \<open>C9: unit steps\<close>

text \<open>
  Claim C9. Whenever one of the three functions returns a path, two consecutive
  elements of the path differ by at most 1 on every axis.
\<close>

theorem unit_steps:
  "(VoxelCasting n ray_start ray_end step_size = Some (Inr p1) \<longrightarrow>
      successively unit_step p1) \<and>
   (VoxelCastingBresenham u ray_start ray_end step_size = Inr p2 \<longrightarrow>
      successively unit_step p2) \<and>
   (VoxelCastingDDA u ray_start ray_end step_size = Inr p3 \<longrightarrow> successively unit_step p3)"
proof -
  have "successively unit_step p1"
    if "VoxelCasting n ray_start ray_end step_size = Some (Inr p1)"
    using VoxelCasting_path [OF that] by (auto intro: moved_unit_step)
  moreover have "successively unit_step p2"
    if "VoxelCastingBresenham u ray_start ray_end step_size = Inr p2"
    using VoxelCastingBresenham_path [OF that] by (auto intro: moved_unit_step)
  moreover have "successively unit_step p3"
    if "VoxelCastingDDA u ray_start ray_end step_size = Inr p3"
    using VoxelCastingDDA_path [OF that] by (auto intro: moved_unit_step)
  ultimately show ?thesis by blast
qed

theorem unit_steps_witness:
  "VoxelCasting 3 (Fin 0, Fin 0, Fin 0) (Fin (- 3), Fin 0, Fin 0) (Fin 1) =
     Some (Inr [(0, 0, 0), (- 1, 0, 0), (- 2, 0, 0), (- 3, 0, 0)]) \<and>
   successively unit_step [(0, 0, 0), (- 1, 0, 0), (- 2, 0, 0), (- 3, 0, 0)] \<and>
   VoxelCastingDDA lround_x86_64 (Fin 0, Fin 0, Fin 0) (Fin 7, Fin (- 3), Fin 2) (Fin 1) =
     Inr [(0, 0, 0), (1, 0, 0), (2, - 1, 1), (3, - 1, 1), (4, - 2, 1), (5, - 2, 1), (6, - 3, 2),
          (7, - 3, 2)] \<and>
   successively unit_step [(0, 0, 0), (1, 0, 0), (2, - 1, 1), (3, - 1, 1), (4, - 2, 1),
     (5, - 2, 1), (6, - 3, 2), (7, - 3, 2)]"
proof -
  note t1 = unit_steps [where n = 3 and ray_start = "(Fin 0, Fin 0, Fin 0)"
      and ray_end = "(Fin (- 3), Fin 0, Fin 0)" and step_size = "Fin 1"
      and ?p1.0 = "[(0, 0, 0), (- 1, 0, 0), (- 2, 0, 0), (- 3, 0, 0)]"]
  note t3 = unit_steps [where u = lround_x86_64 and ray_start = "(Fin 0, Fin 0, Fin 0)"
      and ray_end = "(Fin 7, Fin (- 3), Fin 2)" and step_size = "Fin 1"
      and ?p3.0 = "[(0, 0, 0), (1, 0, 0), (2, - 1, 1), (3, - 1, 1), (4, - 2, 1), (5, - 2, 1),
        (6, - 3, 2), (7, - 3, 2)]"]
  from t1 sample_casting
  have "successively unit_step [(0, 0, 0), (- 1, 0, 0), (- 2, 0, 0), (- 3, 0, 0)]"
    by blast
  moreover from t3 sample_dda
  have "successively unit_step [(0, 0, 0), (1, 0, 0), (2, - 1, 1), (3, - 1, 1), (4, - 2, 1),
     (5, - 2, 1), (6, - 3, 2), (7, - 3, 2)]"
    by blast
  ultimately show ?thesis
    using sample_casting sample_dda by blast
qed

subsection \<open>C10: the two integer traversals differ\<close>

text \<open>
  Claim C10. On the ray from (0, 0, 0) to (2, 1, 0) with voxel edge 1 the two integer
  traversals return different paths with the same first and last element:
  \<^verbatim>\<open>VoxelCastingBresenham\<close> steps y in the second pass (its accumulator, started at 1,
  goes negative only then), \<^verbatim>\<open>VoxelCastingDDA\<close> in the first (twice its accumulator
  reaches \<^verbatim>\<open>max_delta\<close> at once).
\<close>

theorem bresenham_dda_differ:
  "VoxelCastingBresenham u (Fin 0, Fin 0, Fin 0) (Fin 2, Fin 1, Fin 0) (Fin 1) =
     Inr [(0, 0, 0), (1, 0, 0), (2, 1, 0)] \<and>
   VoxelCastingDDA u (Fin 0, Fin 0, Fin 0) (Fin 2, Fin 1, Fin 0) (Fin 1) =
     Inr [(0, 0, 0), (1, 1, 0), (2, 1, 0)]"
  by code_simp

end
